theory Spec2Isabelle
  imports Complex_Main "HOL-Library.Sublist"
begin

section \<open>Dates\<close>

text \<open>
  The calendar works on JavaScript \<open>Date\<close> objects in local time. A date is modelled by
  what its accessors return: \<open>getFullYear\<close>, \<open>getMonth\<close> (0 to 11), \<open>getDate\<close> (1 to the
  length of the month) and the time within the day in milliseconds. Time zones, daylight
  saving and the finite range of \<open>Date\<close> are not modelled.
\<close>

record date =
  getFullYear :: int
  getMonth :: int
  getDate :: int
  timeOfDay :: nat

definition isLeapYear :: "int \<Rightarrow> bool" where
  "isLeapYear y = (y mod 4 = 0 \<and> (y mod 100 \<noteq> 0 \<or> y mod 400 = 0))"

definition daysInMonth :: "int \<Rightarrow> int \<Rightarrow> int" where
  "daysInMonth y m =
     (if m = 1 then (if isLeapYear y then 29 else 28)
      else if m = 3 \<or> m = 5 \<or> m = 8 \<or> m = 10 then 30
      else 31)"

definition valid_date :: "date \<Rightarrow> bool" where
  "valid_date d =
     (0 \<le> getMonth d \<and> getMonth d \<le> 11 \<and>
      1 \<le> getDate d \<and> getDate d \<le> daysInMonth (getFullYear d) (getMonth d))"

definition prevMonth :: "int \<Rightarrow> int \<Rightarrow> int \<times> int" where
  "prevMonth y m = (if m = 0 then (y - 1, 11) else (y, m - 1))"

definition nextMonth :: "int \<Rightarrow> int \<Rightarrow> int \<times> int" where
  "nextMonth y m = (if m = 11 then (y + 1, 0) else (y, m + 1))"

text \<open>
  The day carry of \<open>Date.prototype.setDate\<close> and \<open>setMonth\<close>: day \<open>n\<close> of month \<open>m\<close> of
  year \<open>y\<close>, where \<open>n\<close> may lie outside the month (day 0 is the last day of the month
  before, day 32 of January is the first of February).
\<close>

function carryDay :: "int \<Rightarrow> int \<Rightarrow> int \<Rightarrow> int \<times> int \<times> int" where
  "carryDay y m n =
     (if n < 1 then
        (case prevMonth y m of (y', m') \<Rightarrow> carryDay y' m' (n + daysInMonth y' m'))
      else if daysInMonth y m < n then
        (case nextMonth y m of (y', m') \<Rightarrow> carryDay y' m' (n - daysInMonth y m))
      else (y, m, n))"
  by pat_completeness auto
termination
  by (relation "measure (\<lambda>(y, m, n). if n < 1 then 32 + nat (1 - n) else nat n)")
     (auto simp: daysInMonth_def)

declare carryDay.simps [simp del]

definition makeDay :: "date \<Rightarrow> int \<Rightarrow> int \<Rightarrow> int \<Rightarrow> date" where
  "makeDay d y m n =
     (case carryDay (y + m div 12) (m mod 12) n of
        (y', m', n') \<Rightarrow> d\<lparr>getFullYear := y', getMonth := m', getDate := n'\<rparr>)"

definition setDate :: "date \<Rightarrow> int \<Rightarrow> date" where
  "setDate d n = makeDay d (getFullYear d) (getMonth d) n"

definition setMonth :: "date \<Rightarrow> int \<Rightarrow> date" where
  "setMonth d m = makeDay d (getFullYear d) m (getDate d)"


section \<open>Date helpers of calendar.shared\<close>

text \<open>Modelled from the spec: \<open>compareYearMonth\<close> of \<open>calendar.shared\<close>, which is imported by
  \<open>calendar.tsx\<close> and is not among the sources. The spec: "compares only year+month,
  ignoring day", with a result in \<open>{-1, 0, 1}\<close>.
\<close>

definition compareYearMonth :: "date \<Rightarrow> date \<Rightarrow> int" where
  "compareYearMonth date1 date2 =
     (if getFullYear date1 = getFullYear date2 then
        (if getMonth date1 = getMonth date2 then 0
         else if getMonth date1 > getMonth date2 then 1 else - 1)
      else if getFullYear date1 > getFullYear date2 then 1 else - 1)"

text \<open>Modelled from the spec: \<open>compareDate\<close> of \<open>calendar.shared\<close> (the spec's
  \<open>compareByDay\<close>): the comparison at day granularity, with a result in \<open>{-1, 0, 1}\<close>. The
  time within the day is ignored.
\<close>

definition compareDate :: "date \<Rightarrow> date \<Rightarrow> int" where
  "compareDate day1 day2 =
     (let compareMonthResult = compareYearMonth day1 day2
      in if compareMonthResult = 0 then
           (if getDate day1 = getDate day2 then 0
            else if getDate day1 > getDate day2 then 1 else - 1)
         else compareMonthResult)"


definition compareDate_value :: "date option \<Rightarrow> date option \<Rightarrow> int" where
  "compareDate_value v1 v2 =
     (case v1 of
        None \<Rightarrow> - 1
      | Some day1 \<Rightarrow> (case v2 of None \<Rightarrow> - 1 | Some day2 \<Rightarrow> compareDate day1 day2))"

text \<open>Modelled from the spec: \<open>createPreviousDay\<close> and \<open>createNextDay\<close> of \<open>calendar.shared\<close>
  (the spec's \<open>previousDay\<close> and \<open>nextDay\<close>, "add/subtract one day"): a copy of the date
  moved by one day with \<open>setDate\<close>.
\<close>

definition createPreviousDay :: "date \<Rightarrow> date" where
  "createPreviousDay d = setDate d (getDate d - 1)"

definition createNextDay :: "date \<Rightarrow> date" where
  "createNextDay d = setDate d (getDate d + 1)"

text \<open>
  \<open>createToday()\<close> reads the clock: the functions that call it take its result as the
  parameter \<open>now\<close>. \<open>MIN_DATE\<close> and \<open>MAX_DATE\<close> are only the defaults of the bounds, which
  are the parameters \<open>minValue\<close> and \<open>maxValue\<close>.
\<close>

section \<open>Values of the component\<close>

datatype error = TypeError

datatype calendar_type = Single | Multiple | Range

text \<open>\<open>CalendarValueType\<close>: a date or an array of dates.\<close>

datatype calendar_value = VDate date | VDates "date list"

text \<open>
  The argument of \<open>getInitialDate\<close> has no type annotation: it may be \<open>null\<close>, \<open>undefined\<close>,
  a date, or an array whose elements are dates or null-ish (\<open>None\<close>).
\<close>

datatype raw_value = RNull | RUndefined | RDate date | RArray "date option list"

text \<open>\<open>ReactNode\<close>, as far as the calendar looks at it: \<open>undefined\<close> or a label.\<close>

type_synonym react_node = "string option"

text \<open>\<open>CalendarDayObject\<close>: its optional field \<open>value\<close>.\<close>

record CalendarDayObject =
  day_value :: "date option"

text \<open>
  \<open>CalendarMonthInstance\<close>, the handle of a rendered month: its disabled days, and the
  results of its methods \<open>getHeight()\<close>, \<open>getValue()\<close> and \<open>getScrollTop(subtitle)\<close>.
\<close>

record CalendarMonthInstance =
  disabledDays :: "CalendarDayObject list"
  getHeight :: real
  getValue :: date
  getScrollTop :: "react_node \<Rightarrow> real"

text \<open>
  \<open>monthRefs\<close> is a list of refs; \<open>None\<close> is a ref whose \<open>current\<close> is undefined.
  \<open>monthRefs[index].current\<close> followed by a method call raises a \<open>TypeError\<close> when the ref
  or its \<open>current\<close> is missing.
\<close>

definition monthAt :: "CalendarMonthInstance option list \<Rightarrow> nat \<Rightarrow> error + CalendarMonthInstance" where
  "monthAt monthRefs index =
     (if index < length monthRefs then
        (case monthRefs ! index of None \<Rightarrow> Inl TypeError | Some m \<Rightarrow> Inr m)
      else Inl TypeError)"

text \<open>\<open>Array.prototype.map\<close> with a callback that may raise.\<close>

fun mapE :: "('a \<Rightarrow> error + 'b) \<Rightarrow> 'a list \<Rightarrow> error + 'b list" where
  "mapE f [] = Inr []"
| "mapE f (x # xs) =
     (case f x of
        Inl e \<Rightarrow> Inl e
      | Inr y \<Rightarrow> (case mapE f xs of Inl e \<Rightarrow> Inl e | Inr ys \<Rightarrow> Inr (y # ys)))"

section \<open>Initial value\<close>

definition limitDateRange :: "date \<Rightarrow> date \<Rightarrow> date \<Rightarrow> date" where
  "limitDateRange d minDate maxDate =
     (if compareDate d minDate = - 1 then minDate
      else if compareDate d maxDate = 1 then maxDate
      else d)"

text \<open>
  \<open>limitDateRange\<close> called with a value that may be null-ish: for such a value the first
  test, \<open>compareDate(date, minDate) === -1\<close>, holds (\<open>compareDate_value\<close>), and \<open>minDate\<close> is
  returned.
\<close>

definition limitDateRange_value :: "date option \<Rightarrow> date \<Rightarrow> date \<Rightarrow> date" where
  "limitDateRange_value v minDate maxDate =
     (case v of
        None \<Rightarrow> minDate
      | Some d \<Rightarrow> limitDateRange d minDate maxDate)"

text \<open>\<open>defaultDate[i] || now\<close>: a missing or null-ish element gives \<open>now\<close>.\<close>

definition elementOr :: "date option list \<Rightarrow> nat \<Rightarrow> date \<Rightarrow> date" where
  "elementOr xs i now =
     (if i < length xs then (case xs ! i of None \<Rightarrow> now | Some d \<Rightarrow> d) else now)"

text \<open>
  \<open>getInitialDate\<close> returns \<open>null\<close> (\<open>None\<close>) for the \<open>null\<close> sentinel, and a value
  otherwise. In multiple mode each element of an array, null-ish or not, goes to
  \<open>limitDateRange\<close>.
\<close>

definition getInitialDate ::
  "calendar_type \<Rightarrow> date \<Rightarrow> date \<Rightarrow> date \<Rightarrow> raw_value \<Rightarrow> calendar_value option" where
  "getInitialDate type now minValue maxValue defaultDate =
     (if defaultDate = RNull then None
      else if type = Range then
        (let arr = (case defaultDate of RArray xs \<Rightarrow> xs | _ \<Rightarrow> []);
             startDay = limitDateRange (elementOr arr 0 now) minValue (createPreviousDay maxValue);
             endDay = limitDateRange (elementOr arr 1 now) (createNextDay minValue) maxValue
         in Some (VDates [startDay, endDay]))
      else if type = Multiple then
        (case defaultDate of
           RArray xs \<Rightarrow>
             Some (VDates (map (\<lambda>date. limitDateRange_value date minValue maxValue) xs))
         | _ \<Rightarrow> Some (VDates [limitDateRange now minValue maxValue]))
      else
        (let d = (case defaultDate of RDate d \<Rightarrow> d | _ \<Rightarrow> now)
         in Some (VDate (limitDateRange d minValue maxValue))))"

section \<open>The sequence of months\<close>

definition monthIndex :: "date \<Rightarrow> int" where
  "monthIndex d = getFullYear d * 12 + getMonth d"

text \<open>
  The \<open>do ... while\<close> loop of \<open>months\<close>: the body runs before the first test. That the
  loop ends is proved below, with the facts about dates.
\<close>

function months_loop :: "date \<Rightarrow> date \<Rightarrow> date list \<Rightarrow> date list" where
  "months_loop cursor maxValue ms =
     (let ms' = ms @ [cursor];
          cursor' = setMonth cursor (getMonth cursor + 1)
      in if compareYearMonth cursor' maxValue \<noteq> 1 then months_loop cursor' maxValue ms'
         else ms')"
  by pat_completeness auto

definition months :: "date \<Rightarrow> date \<Rightarrow> date list" where
  "months minValue maxValue = months_loop (setDate minValue 1) maxValue []"

section \<open>Taps\<close>

text \<open>
  \<open>getDisabledDate\<close>: \<open>Array.prototype.find\<close> over the disabled days, then \<open>?.value\<close>. The
  callback passes \<open>day.value!\<close> to \<open>compareDate\<close>; the assertion \<open>!\<close> is erased when the
  program runs. A day without a value passes both tests (\<open>compareDate_value\<close>), is the day
  found, and its value is \<open>undefined\<close> (\<open>None\<close>).
\<close>

fun getDisabledDate :: "CalendarDayObject list \<Rightarrow> date \<Rightarrow> date \<Rightarrow> date option" where
  "getDisabledDate [] startDay d = None"
| "getDisabledDate (day # days) startDay d =
     (if compareDate_value (Some startDay) (day_value day) = - 1 \<and>
         compareDate_value (day_value day) (Some d) = - 1
      then day_value day
      else getDisabledDate days startDay d)"

definition getDisabledDays :: "CalendarMonthInstance option list \<Rightarrow> CalendarDayObject list" where
  "getDisabledDays monthRefs =
     foldl (\<lambda>arr ref. arr @ (case ref of None \<Rightarrow> [] | Some m \<Rightarrow> disabledDays m)) [] monthRefs"

text \<open>
  \<open>onDayClick\<close> returns \<open>Some v\<close> when it calls \<open>change(v)\<close> and \<open>None\<close> when it returns
  without a change. In range mode the current value is destructured as an array, and in
  multiple mode it is spread: a current value that is a single date raises a \<open>TypeError\<close>.
  With \<open>[startDay, endDay] = currentValue\<close>, the test \<open>startDay && !endDay\<close> holds exactly
  for an array of one date.
\<close>

definition onDayClick ::
  "calendar_type \<Rightarrow> bool \<Rightarrow> calendar_value option \<Rightarrow> CalendarMonthInstance option list \<Rightarrow>
     CalendarDayObject \<Rightarrow> error + calendar_value option" where
  "onDayClick type readonly currentValue monthRefs day =
     (case day_value day of
        None \<Rightarrow> Inr None
      | Some d \<Rightarrow>
          if readonly then Inr None
          else if type = Range then
            (let disabledDays = getDisabledDays monthRefs
             in case currentValue of
                  None \<Rightarrow> Inr (Some (VDates [d]))
                | Some (VDate _) \<Rightarrow> Inl TypeError
                | Some (VDates [startDay]) \<Rightarrow>
                    (let compareToStart = compareDate d startDay
                     in if compareToStart = 1 then
                          (case getDisabledDate disabledDays startDay d of
                             Some disabledDay \<Rightarrow>
                               Inr (Some (VDates [startDay, createPreviousDay disabledDay]))
                           | None \<Rightarrow> Inr (Some (VDates [startDay, d])))
                        else if compareToStart = - 1 then Inr (Some (VDates [d]))
                        else Inr (Some (VDates [d, d])))
                | Some (VDates _) \<Rightarrow> Inr (Some (VDates [d])))
          else if type = Multiple then
            (case currentValue of
               None \<Rightarrow> Inr (Some (VDates [d]))
             | Some (VDate _) \<Rightarrow> Inl TypeError
             | Some (VDates dates) \<Rightarrow>
                 (let newDates = filter (\<lambda>dateItem. compareDate dateItem d \<noteq> 0) dates
                  in if length newDates \<noteq> length dates then Inr (Some (VDates newDates))
                     else Inr (Some (VDates (dates @ [d])))))
          else Inr (Some (VDate d)))"

section \<open>Scrolling\<close>

text \<open>
  The state the scroll handlers write: the React states \<open>subtitle\<close> and \<open>bodyScrollTop\<close>,
  the ref \<open>bodyScrollTopRef\<close>, and the calls of the two setters in order. Heights and
  offsets are real numbers: the rounding of JavaScript numbers is not modelled.
\<close>

datatype effect = SetSubtitle react_node | SetBodyScrollTop real

record calendar_state =
  subtitle :: react_node
  bodyScrollTop :: real
  bodyScrollTopRef :: real
  effects :: "effect list"

text \<open>
  What the handlers measure on \<open>bodyRef\<close>: whether \<open>bodyRef.current\<close> is set, the result
  of \<open>getScrollTop(bodyRef)\<close>, and \<open>top\<close> and \<open>height\<close> of \<open>getRect(bodyRef)\<close>. The awaited
  measurements are read in program order.
\<close>

record body =
  mounted :: bool
  scrollTop :: real
  rectTop :: real
  rectHeight :: real

definition setMonthSubtitle ::
  "CalendarMonthInstance option \<Rightarrow> react_node \<Rightarrow> calendar_state \<Rightarrow> calendar_state" where
  "setMonthSubtitle currentMonth s st =
     (case currentMonth of
        None \<Rightarrow> st
      | Some _ \<Rightarrow> st\<lparr>subtitle := s, effects := effects st @ [SetSubtitle s]\<rparr>)"

text \<open>
  The \<open>for\<close> loop of \<open>onScroll\<close>: the index of the first visible month (\<open>top'\<close> and
  \<open>bottom'\<close> are the source's \<open>top\<close> and \<open>bottom\<close>).
\<close>

fun firstVisible :: "real \<Rightarrow> real \<Rightarrow> real \<Rightarrow> nat \<Rightarrow> real list \<Rightarrow> nat option" where
  "firstVisible top' bottom' height i [] = None"
| "firstVisible top' bottom' height i (h # hs) =
     (if height \<le> bottom' \<and> height + h \<ge> top' then Some i
      else firstVisible top' bottom' (height + h) (Suc i) hs)"

definition onScroll ::
  "(date \<Rightarrow> react_node) \<Rightarrow> date list \<Rightarrow> CalendarMonthInstance option list \<Rightarrow> body \<Rightarrow>
     calendar_state \<Rightarrow> error + calendar_state" where
  "onScroll subtitleRender monthList monthRefs bd st =
     (let top' = scrollTop bd;
          bodyHeight = rectHeight bd;
          bottom' = top' + bodyHeight
      in case mapE (\<lambda>index. map_sum id getHeight (monthAt monthRefs index))
                [0..<length monthList] of
           Inl e \<Rightarrow> Inl e
         | Inr heights \<Rightarrow>
             (let heightSum = foldl (+) 0 heights
              in if bottom' > heightSum \<and> top' > 0 then Inr st
                 else (case firstVisible top' bottom' 0 0 heights of
                         None \<Rightarrow> Inr st
                       | Some i \<Rightarrow>
                           (case monthAt monthRefs i of
                              Inl e \<Rightarrow> Inl e
                            | Inr currentMonth \<Rightarrow>
                                Inr (setMonthSubtitle (Some currentMonth)
                                      (subtitleRender (getValue currentMonth)) st)))))"





section \<open>Values for the examples\<close>

definition mkDate :: "int \<Rightarrow> int \<Rightarrow> int \<Rightarrow> date" where
  "mkDate y m n = \<lparr>getFullYear = y, getMonth = m, getDate = n, timeOfDay = 0\<rparr>"

text \<open>
  A first quarter of 2024: three months, each rendered 300 high, two subtitle renderers, a
  state before anything is published, and a mounted body with a given scroll offset and height.
\<close>

definition mkMonth :: "real \<Rightarrow> date \<Rightarrow> CalendarMonthInstance" where
  "mkMonth h v = \<lparr>disabledDays = [], getHeight = h, getValue = v, getScrollTop = (\<lambda>_. 0)\<rparr>"

definition monthLabel :: "date \<Rightarrow> react_node" where
  "monthLabel d =
     (if getMonth d = 0 then Some ''January'' else if getMonth d = 1 then Some ''February''
      else if getMonth d = 2 then Some ''March'' else None)"

definition monthNumber :: "date \<Rightarrow> react_node" where
  "monthNumber d =
     (if getMonth d = 0 then Some ''01'' else if getMonth d = 1 then Some ''02''
      else if getMonth d = 2 then Some ''03'' else None)"

definition q1_months :: "date list" where
  "q1_months = [mkDate 2024 0 1, mkDate 2024 1 1, mkDate 2024 2 1]"

definition q1_insts :: "CalendarMonthInstance list" where
  "q1_insts = [mkMonth 300 (mkDate 2024 0 1), mkMonth 300 (mkDate 2024 1 1),
     mkMonth 300 (mkDate 2024 2 1)]"

definition initial_state :: calendar_state where
  "initial_state = \<lparr>subtitle = None, bodyScrollTop = 0, bodyScrollTopRef = 0, effects = []\<rparr>"

definition mkBody :: "real \<Rightarrow> real \<Rightarrow> body" where
  "mkBody offset height = \<lparr>mounted = True, scrollTop = offset, rectTop = 0, rectHeight = height\<rparr>"


text \<open>A January in which the 15th and the 18th are disabled.\<close>

definition jan_disabled :: "CalendarMonthInstance option list" where
  "jan_disabled =
     [Some \<lparr>disabledDays = [\<lparr>day_value = Some (mkDate 2024 0 15)\<rparr>,
                             \<lparr>day_value = Some (mkDate 2024 0 18)\<rparr>],
            getHeight = 300, getValue = mkDate 2024 0 1, getScrollTop = (\<lambda>_. 0)\<rparr>]"

text \<open>
  A January as above, a ref that is not mounted, and a February in which the 2nd is disabled.
\<close>

definition winter_disabled :: "CalendarMonthInstance option list" where
  "winter_disabled =
     [Some \<lparr>disabledDays = [\<lparr>day_value = Some (mkDate 2024 0 15)\<rparr>,
                             \<lparr>day_value = Some (mkDate 2024 0 18)\<rparr>],
            getHeight = 300, getValue = mkDate 2024 0 1, getScrollTop = (\<lambda>_. 0)\<rparr>,
      None,
      Some \<lparr>disabledDays = [\<lparr>day_value = Some (mkDate 2024 1 2)\<rparr>],
            getHeight = 300, getValue = mkDate 2024 1 1, getScrollTop = (\<lambda>_. 0)\<rparr>]"

section \<open>Auxiliary notions for the proofs\<close>

text \<open>
  \<open>monthOK\<close>: the month is one that \<open>getMonth\<close> returns. \<open>addMonths\<close>: the same day and
  time \<open>k\<close> months later. \<open>dayKey\<close>: a number that orders dates of the calendar by day.
\<close>

definition monthOK :: "date \<Rightarrow> bool" where
  "monthOK d = (0 \<le> getMonth d \<and> getMonth d \<le> 11)"

definition addMonths :: "date \<Rightarrow> int \<Rightarrow> date" where
  "addMonths c k = c\<lparr>getFullYear := (monthIndex c + k) div 12, getMonth := (monthIndex c + k) mod 12\<rparr>"

definition dayKey :: "date \<Rightarrow> int" where
  "dayKey d = monthIndex d * 32 + getDate d"

text \<open>
  \<open>betweenDays startDay d v\<close>: the test of \<open>getDisabledDate\<close>, \<open>v\<close> lies strictly between
  \<open>startDay\<close> and \<open>d\<close>. \<open>inBounds\<close>: a date lies within the bounds, by day. \<open>rawDatesValid\<close>:
  the dates of a raw default are dates of the calendar. \<open>rawArray\<close>: the array that
  \<open>getInitialDate\<close> reads in range mode (empty when the raw default is not an array).
\<close>

definition betweenDays :: "date \<Rightarrow> date \<Rightarrow> date \<Rightarrow> bool" where
  "betweenDays startDay d v = (compareDate startDay v = - 1 \<and> compareDate v d = - 1)"

definition inBounds :: "date \<Rightarrow> date \<Rightarrow> date \<Rightarrow> bool" where
  "inBounds minValue maxValue d = (compareDate d minValue \<noteq> - 1 \<and> compareDate d maxValue \<noteq> 1)"

fun valueInBounds :: "date \<Rightarrow> date \<Rightarrow> calendar_value \<Rightarrow> bool" where
  "valueInBounds minValue maxValue (VDate d) = inBounds minValue maxValue d"
| "valueInBounds minValue maxValue (VDates ds) = list_all (inBounds minValue maxValue) ds"

fun rawDatesValid :: "raw_value \<Rightarrow> bool" where
  "rawDatesValid (RDate d) = valid_date d"
| "rawDatesValid (RArray xs) = list_all (\<lambda>x. case x of None \<Rightarrow> True | Some d \<Rightarrow> valid_date d) xs"
| "rawDatesValid _ = True"

definition rawArray :: "raw_value \<Rightarrow> date option list" where
  "rawArray defaultDate = (case defaultDate of RArray xs \<Rightarrow> xs | _ \<Rightarrow> [])"

section \<open>Facts about dates\<close>

text \<open>
  \<open>carryDay\<close> from a month of the calendar ends in a date of the calendar, and from a day
  that is at least 1 it never moves to an earlier month.
\<close>

lemma carryDay_valid:
  "0 \<le> m \<Longrightarrow> m \<le> 11 \<Longrightarrow> carryDay y m n = (y', m', n') \<Longrightarrow>
     0 \<le> m' \<and> m' \<le> 11 \<and> 1 \<le> n' \<and> n' \<le> daysInMonth y' m'"
proof (induction y m n rule: carryDay.induct)
  case (1 y m n)
  show ?case
  proof (cases "n < 1")
    case True
    obtain y1 m1 where p: "prevMonth y m = (y1, m1)" by (cases "prevMonth y m")
    have r: "0 \<le> m1" "m1 \<le> 11"
      using p 1(3,4) by (auto simp: prevMonth_def split: if_splits)
    have "carryDay y1 m1 (n + daysInMonth y1 m1) = (y', m', n')"
      using 1(5) True p by (subst (asm) carryDay.simps) simp
    from 1(1)[OF True p[symmetric] r this] show ?thesis .
  next
    case False
    show ?thesis
    proof (cases "daysInMonth y m < n")
      case True
      obtain y1 m1 where p: "nextMonth y m = (y1, m1)" by (cases "nextMonth y m")
      have r: "0 \<le> m1" "m1 \<le> 11"
        using p 1(3,4) by (auto simp: nextMonth_def split: if_splits)
      have "carryDay y1 m1 (n - daysInMonth y m) = (y', m', n')"
        using 1(5) True False p by (subst (asm) carryDay.simps) simp
      from 1(2)[OF False True p[symmetric] r this] show ?thesis .
    next
      case False
      with \<open>\<not> n < 1\<close> 1(5) have "(y', m', n') = (y, m, n)"
        by (subst (asm) carryDay.simps) simp
      with False \<open>\<not> n < 1\<close> 1(3,4) show ?thesis by simp
    qed
  qed
qed

lemma carryDay_forward:
  "0 \<le> m \<Longrightarrow> m \<le> 11 \<Longrightarrow> 1 \<le> n \<Longrightarrow> carryDay y m n = (y', m', n') \<Longrightarrow>
     y * 12 + m \<le> y' * 12 + m'"
proof (induction y m n rule: carryDay.induct)
  case (1 y m n)
  show ?case
  proof (cases "daysInMonth y m < n")
    case True
    obtain y1 m1 where p: "nextMonth y m = (y1, m1)" by (cases "nextMonth y m")
    have r: "0 \<le> m1" "m1 \<le> 11" "y * 12 + m \<le> y1 * 12 + m1"
      using p 1(3,4) by (auto simp: nextMonth_def split: if_splits)
    have n1: "\<not> n < 1" using 1(5) by simp
    have c: "carryDay y1 m1 (n - daysInMonth y m) = (y', m', n')"
      using 1(6) True n1 p by (subst (asm) carryDay.simps) simp
    have "1 \<le> n - daysInMonth y m" using True by simp
    from 1(2)[OF n1 True p[symmetric] r(1,2) this c] r(3) show ?thesis by simp
  next
    case False
    with 1(5,6) have "(y', m', n') = (y, m, n)"
      by (subst (asm) carryDay.simps) simp
    then show ?thesis by simp
  qed
qed

lemma setMonth_valid: "valid_date (setMonth c k)"
proof -
  obtain y' m' n' where
    c: "carryDay (getFullYear c + k div 12) (k mod 12) (getDate c) = (y', m', n')"
    by (cases "carryDay (getFullYear c + k div 12) (k mod 12) (getDate c)")
  have "0 \<le> k mod 12" "k mod 12 \<le> 11" by simp_all
  from carryDay_valid[OF this c] c show ?thesis
    by (simp add: setMonth_def makeDay_def valid_date_def)
qed

lemma setMonth_next_forward:
  assumes "valid_date c"
  shows "monthIndex c + 1 \<le> monthIndex (setMonth c (getMonth c + 1))"
proof -
  let ?k = "getMonth c + 1"
  obtain y' m' n' where
    c: "carryDay (getFullYear c + ?k div 12) (?k mod 12) (getDate c) = (y', m', n')"
    by (cases "carryDay (getFullYear c + ?k div 12) (?k mod 12) (getDate c)")
  have "0 \<le> ?k mod 12" "?k mod 12 \<le> 11" by simp_all
  from carryDay_forward[OF this _ c] assms
  have "(getFullYear c + ?k div 12) * 12 + ?k mod 12 \<le> y' * 12 + m'"
    by (simp add: valid_date_def)
  moreover have "(getFullYear c + ?k div 12) * 12 + ?k mod 12 = getFullYear c * 12 + ?k"
    by (simp add: algebra_simps)
  ultimately show ?thesis using c
    by (simp add: monthIndex_def setMonth_def makeDay_def)
qed

text \<open>
  The loop of \<open>months\<close> ends: \<open>setMonth\<close> always returns a date of the calendar, and from a
  date of the calendar the next cursor is at least one month later, while the loop goes on
  only as long as the cursor is not after the month of \<open>maxValue\<close>.
\<close>

termination months_loop
proof (relation "measures [\<lambda>(c, mx, ms). if valid_date c then 0 else 1,
    \<lambda>(c, mx, ms). nat (getFullYear mx * 12 + 12 - monthIndex c)]")
  show "wf (measures [\<lambda>(c, mx, ms). if valid_date c then 0 else 1,
    \<lambda>(c, mx, ms). nat (getFullYear mx * 12 + 12 - monthIndex c)])"
    by simp
next
  fix cursor maxValue :: date and ms x xa :: "date list" and xb :: date
  assume a: "xa = ms @ [cursor]" "xb = setMonth cursor (getMonth cursor + 1)"
    "compareYearMonth xb maxValue \<noteq> 1"
  have v: "valid_date xb" using a(2) setMonth_valid by simp
  show "((xb, maxValue, xa), cursor, maxValue, ms)
       \<in> measures [\<lambda>(c, mx, ms). if valid_date c then 0 else 1,
    \<lambda>(c, mx, ms). nat (getFullYear mx * 12 + 12 - monthIndex c)]"
  proof (cases "valid_date cursor")
    case False
    with v show ?thesis by simp
  next
    case True
    from setMonth_next_forward[OF True] a(2)
    have "monthIndex cursor + 1 \<le> monthIndex xb" by simp
    moreover have "monthIndex xb \<le> getFullYear maxValue * 12 + 11"
      using a(3) v
      by (auto simp: compareYearMonth_def monthIndex_def valid_date_def split: if_splits)
    ultimately show ?thesis using v True by simp
  qed
qed

declare months_loop.simps [simp del]

lemma valid_monthOK: "valid_date d \<Longrightarrow> monthOK d"
  by (simp add: valid_date_def monthOK_def)

lemma compareYearMonth_index:
  assumes "monthOK a" "monthOK b"
  shows "compareYearMonth a b =
     (if monthIndex a < monthIndex b then - 1 else if monthIndex a = monthIndex b then 0 else 1)"
  using assms by (auto simp: compareYearMonth_def monthIndex_def monthOK_def)

lemma monthIndex_addMonths [simp]: "monthIndex (addMonths c k) = monthIndex c + k"
  by (simp add: addMonths_def monthIndex_def)

lemma monthOK_addMonths [simp]: "monthOK (addMonths c k)"
  by (simp add: addMonths_def monthOK_def)

lemma getDate_addMonths [simp]: "getDate (addMonths c k) = getDate c"
  by (simp add: addMonths_def)

lemma addMonths_0: "monthOK c \<Longrightarrow> addMonths c 0 = c"
  by (simp add: addMonths_def monthIndex_def monthOK_def)

lemma addMonths_addMonths: "addMonths (addMonths c j) k = addMonths c (j + k)"
  by (simp add: addMonths_def monthIndex_def add.assoc)

lemma carryDay_first: "carryDay y m 1 = (y, m, 1)"
  by (subst carryDay.simps) (simp add: daysInMonth_def)

lemma setMonth_first:
  assumes "monthOK c" "getDate c = 1"
  shows "setMonth c (getMonth c + 1) = addMonths c 1"
proof -
  have "(getFullYear c * 12 + getMonth c + 1) div 12 = getFullYear c + (getMonth c + 1) div 12"
    by simp
  moreover have "(getFullYear c * 12 + getMonth c + 1) mod 12 = (getMonth c + 1) mod 12"
    by (metis add.assoc mod_mult_self4 mult.commute)
  ultimately show ?thesis using assms
    by (simp add: setMonth_def makeDay_def carryDay_first addMonths_def monthIndex_def)
qed

lemma months_loop_closed:
  assumes "monthOK c" "getDate c = 1" "monthOK mx"
  shows "months_loop c mx acc =
     acc @ map (\<lambda>k. addMonths c (int k)) [0..<Suc (nat (monthIndex mx - monthIndex c))]"
  using assms
proof (induction "nat (monthIndex mx - monthIndex c)" arbitrary: c acc)
  case 0
  then have "compareYearMonth (addMonths c 1) mx = 1"
    by (simp add: compareYearMonth_index)
  with 0 show ?case
    by (subst months_loop.simps) (simp add: setMonth_first addMonths_0)
next
  case (Suc n)
  let ?c = "addMonths c 1"
  have n: "n = nat (monthIndex mx - monthIndex ?c)" using Suc(2) by simp
  have "monthIndex c + 1 \<le> monthIndex mx" using Suc(2) by linarith
  then have le: "compareYearMonth ?c mx \<noteq> 1"
    using Suc(3,5) by (simp add: compareYearMonth_index)
  have "months_loop c mx acc = months_loop ?c mx (acc @ [c])"
    using le Suc(3,4) by (subst months_loop.simps) (simp add: setMonth_first)
  also have "\<dots> = (acc @ [c]) @ map (\<lambda>k. addMonths ?c (int k)) [0..<Suc n]"
    unfolding n by (rule Suc(1)[OF n]) (simp_all add: Suc(4,5))
  also have "\<dots> = acc @ map (\<lambda>k. addMonths c (int k)) [0..<Suc (Suc n)]"
    using Suc(3)
    by (simp add: addMonths_addMonths addMonths_0 map_upt_Suc[of _ "Suc n"] add.commute
             del: upt_Suc)
  finally show ?case unfolding Suc(2) .
qed

lemma setDate_first:
  "setDate d 1 = d\<lparr>getFullYear := getFullYear d + getMonth d div 12, getMonth := getMonth d mod 12, getDate := 1\<rparr>"
  by (simp add: setDate_def makeDay_def carryDay_first)

lemma setDate_first_valid:
  "monthOK d \<Longrightarrow> setDate d 1 = d\<lparr>getDate := 1\<rparr>"
  by (simp add: setDate_first monthOK_def)

lemma months_closed:
  assumes "monthOK mn" "monthOK mx"
  shows "months mn mx =
     map (\<lambda>k. addMonths (mn\<lparr>getDate := 1\<rparr>) (int k)) [0..<Suc (nat (monthIndex mx - monthIndex mn))]"
proof -
  have "monthOK (mn\<lparr>getDate := 1\<rparr>)" using assms(1) by (simp add: monthOK_def)
  from months_loop_closed[OF this _ assms(2), of "[]"] assms(1) show ?thesis
    by (simp add: months_def setDate_first_valid monthIndex_def)
qed

lemma daysInMonth_bounds: "28 \<le> daysInMonth y m" "daysInMonth y m \<le> 31"
  by (simp_all add: daysInMonth_def)

lemma valid_date_bounds:
  assumes "valid_date d"
  shows "0 \<le> getMonth d" "getMonth d \<le> 11" "1 \<le> getDate d" "getDate d \<le> 31"
  using assms daysInMonth_bounds(2)[of "getFullYear d" "getMonth d"]
  by (simp_all add: valid_date_def)

lemma compareDate_key:
  assumes "valid_date a" "valid_date b"
  shows "compareDate a b =
     (if dayKey a < dayKey b then - 1 else if dayKey a = dayKey b then 0 else 1)"
  using valid_date_bounds[OF assms(1)] valid_date_bounds[OF assms(2)]
  by (auto simp: compareDate_def compareYearMonth_def dayKey_def monthIndex_def Let_def)

lemma monthIndex_inj:
  assumes "monthOK a" "monthOK b" "monthIndex a = monthIndex b"
  shows "getFullYear a = getFullYear b \<and> getMonth a = getMonth b"
  using assms unfolding monthOK_def monthIndex_def by presburger

lemma carryDay_inside: "1 \<le> n \<Longrightarrow> n \<le> daysInMonth y m \<Longrightarrow> carryDay y m n = (y, m, n)"
  by (subst carryDay.simps) simp

lemma carryDay_zero:
  "carryDay y m 0 = (case prevMonth y m of (y', m') \<Rightarrow> (y', m', daysInMonth y' m'))"
proof -
  obtain y' m' where p: "prevMonth y m = (y', m')" by (cases "prevMonth y m")
  have "carryDay y m 0 = carryDay y' m' (daysInMonth y' m')"
    using p by (subst carryDay.simps) simp
  also have "\<dots> = (y', m', daysInMonth y' m')"
    using daysInMonth_bounds(1)[of y' m'] by (intro carryDay_inside) simp_all
  finally show ?thesis using p by simp
qed

lemma carryDay_overflow:
  "carryDay y m (daysInMonth y m + 1) = (case nextMonth y m of (y', m') \<Rightarrow> (y', m', 1))"
proof -
  obtain y' m' where p: "nextMonth y m = (y', m')" by (cases "nextMonth y m")
  have "carryDay y m (daysInMonth y m + 1) = carryDay y' m' 1"
    using p daysInMonth_bounds(1)[of y m] by (subst carryDay.simps) simp
  then show ?thesis using p by (simp add: carryDay_first)
qed

lemma createPreviousDay_cases:
  assumes "valid_date d"
  shows "createPreviousDay d =
     (if getDate d = 1 then
        (case prevMonth (getFullYear d) (getMonth d) of
           (y', m') \<Rightarrow> d\<lparr>getFullYear := y', getMonth := m', getDate := daysInMonth y' m'\<rparr>)
      else d\<lparr>getDate := getDate d - 1\<rparr>)"
proof -
  have m: "getFullYear d + getMonth d div 12 = getFullYear d" "getMonth d mod 12 = getMonth d"
    using valid_date_bounds[OF assms] by simp_all
  show ?thesis
  proof (cases "getDate d = 1")
    case True
    then show ?thesis
      by (simp add: createPreviousDay_def setDate_def makeDay_def m carryDay_zero split: prod.splits)
  next
    case False
    then have "carryDay (getFullYear d) (getMonth d) (getDate d - 1)
        = (getFullYear d, getMonth d, getDate d - 1)"
      using assms by (intro carryDay_inside) (simp_all add: valid_date_def)
    with False show ?thesis
      by (simp add: createPreviousDay_def setDate_def makeDay_def m)
  qed
qed

lemma createNextDay_cases:
  assumes "valid_date d"
  shows "createNextDay d =
     (if getDate d = daysInMonth (getFullYear d) (getMonth d) then
        (case nextMonth (getFullYear d) (getMonth d) of
           (y', m') \<Rightarrow> d\<lparr>getFullYear := y', getMonth := m', getDate := 1\<rparr>)
      else d\<lparr>getDate := getDate d + 1\<rparr>)"
proof -
  have m: "getFullYear d + getMonth d div 12 = getFullYear d" "getMonth d mod 12 = getMonth d"
    using valid_date_bounds[OF assms] by simp_all
  show ?thesis
  proof (cases "getDate d = daysInMonth (getFullYear d) (getMonth d)")
    case True
    then show ?thesis
      by (simp add: createNextDay_def setDate_def makeDay_def m carryDay_overflow split: prod.splits)
  next
    case False
    then have "carryDay (getFullYear d) (getMonth d) (getDate d + 1)
        = (getFullYear d, getMonth d, getDate d + 1)"
      using assms by (intro carryDay_inside) (simp_all add: valid_date_def)
    with False show ?thesis
      by (simp add: createNextDay_def setDate_def makeDay_def m)
  qed
qed

lemma prevMonth_index:
  assumes "0 \<le> m" "m \<le> 11" "prevMonth y m = (y', m')"
  shows "0 \<le> m'" "m' \<le> 11" "y' * 12 + m' = y * 12 + m - 1"
  using assms by (auto simp: prevMonth_def split: if_splits)

lemma nextMonth_index:
  assumes "0 \<le> m" "m \<le> 11" "nextMonth y m = (y', m')"
  shows "0 \<le> m'" "m' \<le> 11" "y' * 12 + m' = y * 12 + m + 1"
  using assms by (auto simp: nextMonth_def split: if_splits)

lemma createPreviousDay_valid:
  assumes "valid_date d"
  shows "valid_date (createPreviousDay d)"
proof -
  obtain y' m' where p: "prevMonth (getFullYear d) (getMonth d) = (y', m')"
    by (cases "prevMonth (getFullYear d) (getMonth d)")
  note b = valid_date_bounds[OF assms]
  show ?thesis
    using assms p prevMonth_index[OF b(1,2) p] daysInMonth_bounds[of y' m']
    by (simp add: createPreviousDay_cases valid_date_def)
qed

lemma createNextDay_valid:
  assumes "valid_date d"
  shows "valid_date (createNextDay d)"
proof -
  obtain y' m' where p: "nextMonth (getFullYear d) (getMonth d) = (y', m')"
    by (cases "nextMonth (getFullYear d) (getMonth d)")
  note b = valid_date_bounds[OF assms]
  show ?thesis
    using assms p nextMonth_index[OF b(1,2) p] daysInMonth_bounds[of y' m']
    by (simp add: createNextDay_cases valid_date_def)
qed

lemma createPreviousDay_less:
  assumes "valid_date d"
  shows "dayKey (createPreviousDay d) < dayKey d"
proof -
  obtain y' m' where p: "prevMonth (getFullYear d) (getMonth d) = (y', m')"
    by (cases "prevMonth (getFullYear d) (getMonth d)")
  note b = valid_date_bounds[OF assms]
  show ?thesis
    using assms p prevMonth_index[OF b(1,2) p] daysInMonth_bounds[of y' m']
    by (simp add: createPreviousDay_cases dayKey_def monthIndex_def)
qed

lemma createNextDay_greater:
  assumes "valid_date d"
  shows "dayKey d < dayKey (createNextDay d)"
proof -
  obtain y' m' where p: "nextMonth (getFullYear d) (getMonth d) = (y', m')"
    by (cases "nextMonth (getFullYear d) (getMonth d)")
  note b = valid_date_bounds[OF assms]
  show ?thesis
    using assms p nextMonth_index[OF b(1,2) p] b
    by (simp add: createNextDay_cases dayKey_def monthIndex_def)
qed

lemma createPreviousDay_greatest:
  assumes "valid_date d" "valid_date a" "dayKey a < dayKey d"
  shows "dayKey a \<le> dayKey (createPreviousDay d)"
proof (cases "getDate d = 1")
  case False
  then show ?thesis using assms
    by (simp add: createPreviousDay_cases dayKey_def monthIndex_def)
next
  case True
  obtain y' m' where p: "prevMonth (getFullYear d) (getMonth d) = (y', m')"
    by (cases "prevMonth (getFullYear d) (getMonth d)")
  let ?p = "d\<lparr>getFullYear := y', getMonth := m', getDate := daysInMonth y' m'\<rparr>"
  have e: "createPreviousDay d = ?p" using True p assms(1) by (simp add: createPreviousDay_cases)
  have ip: "monthIndex ?p = monthIndex d - 1" "monthOK ?p"
    using p valid_date_bounds[OF assms(1)]
    by (auto simp: prevMonth_def monthIndex_def monthOK_def split: if_splits)
  have lt: "monthIndex a < monthIndex d"
    using assms(3) True valid_date_bounds[OF assms(2)] by (simp add: dayKey_def)
  show ?thesis
  proof (cases "monthIndex a = monthIndex ?p")
    case True
    from monthIndex_inj[OF valid_monthOK[OF assms(2)] ip(2) True]
    have "getDate a \<le> daysInMonth y' m'" using assms(2) by (simp add: valid_date_def)
    then show ?thesis using True e by (simp add: dayKey_def)
  next
    case False
    with lt ip(1) have "monthIndex a \<le> monthIndex ?p - 1" by simp
    then show ?thesis
      using e valid_date_bounds[OF assms(2)] daysInMonth_bounds(1)[of y' m']
      by (simp add: dayKey_def)
  qed
qed

lemma createNextDay_least:
  assumes "valid_date d" "valid_date a" "dayKey d < dayKey a"
  shows "dayKey (createNextDay d) \<le> dayKey a"
proof (cases "getDate d = daysInMonth (getFullYear d) (getMonth d)")
  case False
  then show ?thesis using assms
    by (simp add: createNextDay_cases dayKey_def monthIndex_def)
next
  case True
  obtain y' m' where p: "nextMonth (getFullYear d) (getMonth d) = (y', m')"
    by (cases "nextMonth (getFullYear d) (getMonth d)")
  let ?p = "d\<lparr>getFullYear := y', getMonth := m', getDate := 1\<rparr>"
  have e: "createNextDay d = ?p" using True p assms(1) by (simp add: createNextDay_cases)
  have ip: "monthIndex ?p = monthIndex d + 1"
    using p valid_date_bounds[OF assms(1)]
    by (auto simp: nextMonth_def monthIndex_def split: if_splits)
  have "monthIndex a \<noteq> monthIndex d"
  proof
    assume eq: "monthIndex a = monthIndex d"
    from monthIndex_inj[OF valid_monthOK[OF assms(2)] valid_monthOK[OF assms(1)] eq]
    have "getDate a \<le> getDate d" using assms(2) True by (simp add: valid_date_def)
    with eq assms(3) show False by (simp add: dayKey_def)
  qed
  moreover have "monthIndex d \<le> monthIndex a"
    using assms(3) valid_date_bounds[OF assms(1)] valid_date_bounds[OF assms(2)]
    by (simp add: dayKey_def)
  ultimately have "monthIndex d + 1 \<le> monthIndex a" by simp
  then show ?thesis using e ip valid_date_bounds[OF assms(2)] by (simp add: dayKey_def)
qed

lemma compareDate_monthIndex:
  assumes "valid_date a" "valid_date b" "compareDate a b \<noteq> 1"
  shows "monthIndex a \<le> monthIndex b"
  using assms(3) valid_date_bounds[OF assms(1)] valid_date_bounds[OF assms(2)]
  by (simp add: compareDate_key[OF assms(1,2)] dayKey_def split: if_splits)

lemma compareDate_monthIndex_ge:
  assumes "valid_date a" "valid_date b" "compareDate a b = 1"
  shows "monthIndex b \<le> monthIndex a"
  using assms(3) valid_date_bounds[OF assms(1)] valid_date_bounds[OF assms(2)]
  by (simp add: compareDate_key[OF assms(1,2)] dayKey_def split: if_splits)

lemma valid_first_of_month:
  assumes "monthOK c" "getDate c = 1"
  shows "valid_date (addMonths c k)"
  using assms(2) daysInMonth_bounds(1)[of "getFullYear (addMonths c k)" "getMonth (addMonths c k)"]
    monthOK_addMonths[of c k]
  by (simp add: valid_date_def monthOK_def)

lemmas ex_simps = mkDate_def valid_date_def daysInMonth_def isLeapYear_def compareDate_def
  compareYearMonth_def

section \<open>The sequence of months: claims C6 and C2\<close>

text \<open>
  C6. For bounds that are dates of the calendar with \<open>minValue\<close> not after \<open>maxValue\<close> (by
  day), \<open>months\<close> is a non-empty list of first days of months; each element is exactly one
  calendar month after the one before it (its month index \<open>12 * year + month\<close> is larger by
  one); the first element has the year and month of \<open>minValue\<close> and the last element those
  of \<open>maxValue\<close>.
\<close>

theorem months_sequence:
  assumes "valid_date minValue" "valid_date maxValue" "compareDate minValue maxValue \<noteq> 1"
  shows "let ms = months minValue maxValue in
     ms \<noteq> [] \<and>
     (\<forall>d\<in>set ms. valid_date d \<and> getDate d = 1) \<and>
     (\<forall>i. Suc i < length ms \<longrightarrow> monthIndex (ms ! Suc i) = monthIndex (ms ! i) + 1) \<and>
     compareYearMonth (hd ms) minValue = 0 \<and>
     compareYearMonth (last ms) maxValue = 0"
proof -
  let ?c = "minValue\<lparr>getDate := 1\<rparr>"
  let ?n = "nat (monthIndex maxValue - monthIndex minValue)"
  let ?ms = "map (\<lambda>k. addMonths ?c (int k)) [0..<Suc ?n]"
  have ok: "monthOK minValue" "monthOK maxValue" "monthOK ?c"
    using assms(1,2) by (simp_all add: valid_monthOK[unfolded monthOK_def] monthOK_def)
  have ms: "months minValue maxValue = ?ms"
    by (rule months_closed[OF ok(1,2)])
  have le: "monthIndex minValue \<le> monthIndex maxValue"
    by (rule compareDate_monthIndex[OF assms])
  have ic: "monthIndex ?c = monthIndex minValue" by (simp add: monthIndex_def)
  have 1: "?ms \<noteq> []" by simp
  have 2: "\<forall>d\<in>set ?ms. valid_date d \<and> getDate d = 1"
    using valid_first_of_month[OF ok(3)] by auto
  have 3: "\<forall>i. Suc i < length ?ms \<longrightarrow> monthIndex (?ms ! Suc i) = monthIndex (?ms ! i) + 1"
  proof (intro allI impI)
    fix i assume "Suc i < length ?ms"
    then have "Suc i < Suc ?n" "i < Suc ?n" by simp_all
    then have "?ms ! Suc i = addMonths ?c (int (Suc i))" "?ms ! i = addMonths ?c (int i)"
      by (simp_all only: nth_map_upt add_0 length_upt diff_zero)
    then show "monthIndex (?ms ! Suc i) = monthIndex (?ms ! i) + 1" by simp
  qed
  have "hd ?ms = addMonths ?c 0" by (simp add: hd_map upt_conv_Cons del: upt_Suc)
  then have 4: "compareYearMonth (hd ?ms) minValue = 0"
    using ok by (simp add: compareYearMonth_index ic)
  have "last ?ms = addMonths ?c (int ?n)" by (simp add: last_map)
  then have 5: "compareYearMonth (last ?ms) maxValue = 0"
    using ok le by (simp add: compareYearMonth_index ic)
  show ?thesis unfolding ms Let_def using 1 2 3 4 5 by blast
qed

theorem months_sequence_witness:
  "valid_date (mkDate 2024 0 15) \<and> valid_date (mkDate 2024 2 20) \<and>
   compareDate (mkDate 2024 0 15) (mkDate 2024 2 20) \<noteq> 1 \<and>
   (let ms = months (mkDate 2024 0 15) (mkDate 2024 2 20) in
     ms \<noteq> [] \<and>
     (\<forall>d\<in>set ms. valid_date d \<and> getDate d = 1) \<and>
     (\<forall>i. Suc i < length ms \<longrightarrow> monthIndex (ms ! Suc i) = monthIndex (ms ! i) + 1) \<and>
     compareYearMonth (hd ms) (mkDate 2024 0 15) = 0 \<and>
     compareYearMonth (last ms) (mkDate 2024 2 20) = 0)"
proof -
  have h: "valid_date (mkDate 2024 0 15)" "valid_date (mkDate 2024 2 20)"
    "compareDate (mkDate 2024 0 15) (mkDate 2024 2 20) \<noteq> 1"
    by (simp_all add: ex_simps)
  from h months_sequence[OF h] show ?thesis by blast
qed

text \<open>
  C2, as stated, fails: the loop of \<open>months\<close> is a \<open>do ... while\<close>, so the first month is
  pushed before the bounds are compared. With \<open>minValue\<close> = 15 March 2024 and \<open>maxValue\<close> =
  10 January 2024 the sequence is the single anchor 1 March 2024, not the empty sequence.
\<close>

theorem months_invalid_bounds_counterexample:
  "compareDate (mkDate 2024 2 15) (mkDate 2024 0 10) = 1 \<and>
   months (mkDate 2024 2 15) (mkDate 2024 0 10) = [mkDate 2024 2 1]"
  by (simp add: months_def setDate_def setMonth_def makeDay_def carryDay_first
      months_loop.simps ex_simps)

text \<open>
  C2, amended. For bounds that are dates of the calendar with \<open>minValue\<close> after \<open>maxValue\<close>
  (by day), \<open>months\<close> raises nothing and returns exactly one month anchor: the first day of
  the month of \<open>minValue\<close>.
\<close>

theorem months_invalid_bounds:
  assumes "valid_date minValue" "valid_date maxValue" "compareDate minValue maxValue = 1"
  shows "months minValue maxValue = [setDate minValue 1] \<and>
     setDate minValue 1 = minValue\<lparr>getDate := 1\<rparr>"
proof -
  have ok: "monthOK minValue" "monthOK maxValue"
    using assms(1,2) by (simp_all add: valid_monthOK)
  have "monthIndex maxValue \<le> monthIndex minValue"
    by (rule compareDate_monthIndex_ge[OF assms])
  then have "nat (monthIndex maxValue - monthIndex minValue) = 0" by simp
  then have "months minValue maxValue = [addMonths (minValue\<lparr>getDate := 1\<rparr>) 0]"
    by (simp add: months_closed[OF ok])
  moreover have "monthOK (minValue\<lparr>getDate := 1\<rparr>)" using ok(1) by (simp add: monthOK_def)
  ultimately show ?thesis
    using ok(1) by (simp add: addMonths_0 setDate_first_valid)
qed

theorem months_invalid_bounds_witness:
  "valid_date (mkDate 2024 2 15) \<and> valid_date (mkDate 2024 0 10) \<and>
   compareDate (mkDate 2024 2 15) (mkDate 2024 0 10) = 1 \<and>
   months (mkDate 2024 2 15) (mkDate 2024 0 10) = [setDate (mkDate 2024 2 15) 1] \<and>
   setDate (mkDate 2024 2 15) 1 = (mkDate 2024 2 15)\<lparr>getDate := 1\<rparr>"
proof -
  have h: "valid_date (mkDate 2024 2 15)" "valid_date (mkDate 2024 0 10)"
    "compareDate (mkDate 2024 2 15) (mkDate 2024 0 10) = 1"
    by (simp_all add: ex_simps)
  from h months_invalid_bounds[OF h] show ?thesis by blast
qed

section \<open>Facts about the scroll handlers\<close>

lemma mapE_Inr:
  "(\<And>x. x \<in> set xs \<Longrightarrow> f x = Inr (g x)) \<Longrightarrow> mapE f xs = Inr (map g xs)"
  by (induction xs) simp_all

lemma monthAt_Some: "i < length insts \<Longrightarrow> monthAt (map Some insts) i = Inr (insts ! i)"
  by (simp add: monthAt_def)

lemma heights_mounted:
  "mapE (\<lambda>index. map_sum id getHeight (monthAt (map Some insts) index)) [0..<length insts]
     = Inr (map getHeight insts)"
proof -
  have "mapE (\<lambda>index. map_sum id getHeight (monthAt (map Some insts) index)) [0..<length insts]
      = Inr (map (\<lambda>i. getHeight (insts ! i)) [0..<length insts])"
    by (rule mapE_Inr) (simp add: monthAt_Some)
  also have "map (\<lambda>i. getHeight (insts ! i)) [0..<length insts] = map getHeight insts"
    by (rule nth_equalityI) simp_all
  finally show ?thesis .
qed

lemma firstVisible_bound:
  "firstVisible t b h i hs = Some j \<Longrightarrow> i \<le> j \<and> j < i + length hs"
proof (induction hs arbitrary: h i)
  case Nil
  then show ?case by simp
next
  case (Cons a hs)
  show ?case
  proof (cases "h \<le> b \<and> h + a \<ge> t")
    case True
    with Cons.prems show ?thesis by simp
  next
    case False
    with Cons.prems have "firstVisible t b (h + a) (Suc i) hs = Some j" by auto
    from Cons.IH[OF this] show ?thesis by simp
  qed
qed

lemma onScroll_mounted:
  assumes "length monthList = length insts"
  shows "onScroll render monthList (map Some insts) bd st =
     (if scrollTop bd + rectHeight bd > foldl (+) 0 (map getHeight insts) \<and> scrollTop bd > 0
      then Inr st
      else (case firstVisible (scrollTop bd) (scrollTop bd + rectHeight bd) 0 0
                   (map getHeight insts) of
              None \<Rightarrow> Inr st
            | Some i \<Rightarrow> Inr (st\<lparr>subtitle := render (getValue (insts ! i)),
                  effects := effects st @ [SetSubtitle (render (getValue (insts ! i)))]\<rparr>)))"
proof -
  have "\<And>i. firstVisible (scrollTop bd) (scrollTop bd + rectHeight bd) 0 0
      (map getHeight insts) = Some i \<Longrightarrow> monthAt (map Some insts) i = Inr (insts ! i)"
    using firstVisible_bound by (fastforce simp: monthAt_Some)
  then show ?thesis
    by (simp add: onScroll_def assms heights_mounted setMonthSubtitle_def Let_def
        split: option.splits)
qed



lemmas scroll_ex = mkMonth_def monthLabel_def monthNumber_def q1_months_def q1_insts_def
  initial_state_def mkBody_def mkDate_def

section \<open>Passive sync: claims C1 and C5\<close>

text \<open>
  C1, as stated, fails. With scroll offset 500, viewport height 800 and three months of
  height 300, the bottom of the band is 1300, above the total height 900, and the offset is
  positive: the guard against scroll bounce returns before the scan. No anchor is selected
  and no subtitle is published; the state is returned as it was.
\<close>

theorem onScroll_scenario_counterexample:
  "onScroll monthLabel q1_months (map Some q1_insts) (mkBody 500 800) initial_state
     = Inr initial_state \<and>
   subtitle initial_state = None \<and> effects initial_state = []"
  by (simp add: onScroll_def monthAt_def setMonthSubtitle_def scroll_ex
      upt_rec[of 0] upt_rec[of "Suc 0"] upt_rec[of "Suc (Suc 0)"])

text \<open>
  C1, amended. With scroll offset 500, viewport height 800 and month heights
  \<open>[300, 300, 300]\<close>, \<open>onScroll\<close> leaves the state unchanged (the guard skips the update),
  although the scan on the band from 500 to 1300 would pick index 1. With the same offset and
  a viewport height between 0 and 400 (the bottom of the band is at most 900), \<open>onScroll\<close>
  selects the month at index 1 and publishes its subtitle.
\<close>

theorem onScroll_scenario:
  assumes "map getHeight insts = [300, 300, 300]" "length monthList = 3"
  shows "onScroll render monthList (map Some insts)
       \<lparr>mounted = mt, scrollTop = 500, rectTop = rt, rectHeight = 800\<rparr> st = Inr st \<and>
     firstVisible 500 (500 + 800) 0 0 (map getHeight insts) = Some 1 \<and>
     (0 \<le> h \<and> h \<le> 400 \<longrightarrow>
       onScroll render monthList (map Some insts)
         \<lparr>mounted = mt, scrollTop = 500, rectTop = rt, rectHeight = h\<rparr> st =
       Inr (st\<lparr>subtitle := render (getValue (insts ! 1)),
               effects := effects st @ [SetSubtitle (render (getValue (insts ! 1)))]\<rparr>))"
proof -
  have "length (map getHeight insts) = 3" unfolding assms(1) by simp
  then have len: "length monthList = length insts" using assms(2) by simp
  show ?thesis by (simp add: onScroll_mounted[OF len] assms(1))
qed

theorem onScroll_scenario_witness:
  "map getHeight q1_insts = [300, 300, 300] \<and> length q1_months = 3 \<and>
   onScroll monthLabel q1_months (map Some q1_insts)
       \<lparr>mounted = True, scrollTop = 500, rectTop = 0, rectHeight = 800\<rparr> initial_state
     = Inr initial_state \<and>
   firstVisible 500 (500 + 800) 0 0 (map getHeight q1_insts) = Some 1 \<and>
   (0 \<le> (400::real) \<and> (400::real) \<le> 400) \<and>
   onScroll monthLabel q1_months (map Some q1_insts)
       \<lparr>mounted = True, scrollTop = 500, rectTop = 0, rectHeight = 400\<rparr> initial_state
     = Inr (initial_state\<lparr>subtitle := Some ''February'',
                          effects := [SetSubtitle (Some ''February'')]\<rparr>)"
proof -
  have h: "map getHeight q1_insts = [300, 300, 300]" "length q1_months = 3"
    by (simp_all add: scroll_ex)
  have v: "monthLabel (getValue (q1_insts ! 1)) = Some ''February''"
    "effects initial_state = []"
    by (simp_all add: scroll_ex)
  from onScroll_scenario[OF h, of monthLabel True 0 initial_state 400] h v
  show ?thesis by simp
qed

text \<open>
  C5, as stated, fails: \<open>onScroll\<close> keeps no record of the anchor it published and calls
  \<open>setSubtitle\<close> on every run that finds a visible month. At offset 500 with viewport height
  400 the anchor is index 1 on every run: a second run publishes "February" again, and a run
  with another renderer changes the subtitle state although the anchor is the same.
\<close>

theorem onScroll_publishes_counterexample:
  "firstVisible 500 900 0 0 [300, 300, 300] = Some 1 \<and>
   onScroll monthLabel q1_months (map Some q1_insts) (mkBody 500 400) initial_state
     = Inr \<lparr>subtitle = Some ''February'', bodyScrollTop = 0, bodyScrollTopRef = 0,
        effects = [SetSubtitle (Some ''February'')]\<rparr> \<and>
   onScroll monthLabel q1_months (map Some q1_insts) (mkBody 500 400)
      \<lparr>subtitle = Some ''February'', bodyScrollTop = 0, bodyScrollTopRef = 0,
        effects = [SetSubtitle (Some ''February'')]\<rparr>
     = Inr \<lparr>subtitle = Some ''February'', bodyScrollTop = 0, bodyScrollTopRef = 0,
        effects = [SetSubtitle (Some ''February''), SetSubtitle (Some ''February'')]\<rparr> \<and>
   onScroll monthNumber q1_months (map Some q1_insts) (mkBody 500 400)
      \<lparr>subtitle = Some ''February'', bodyScrollTop = 0, bodyScrollTopRef = 0,
        effects = [SetSubtitle (Some ''February'')]\<rparr>
     = Inr \<lparr>subtitle = Some ''02'', bodyScrollTop = 0, bodyScrollTopRef = 0,
        effects = [SetSubtitle (Some ''February''), SetSubtitle (Some ''02'')]\<rparr>"
  by (simp add: onScroll_def monthAt_def setMonthSubtitle_def scroll_ex
      upt_rec[of 0] upt_rec[of "Suc 0"] upt_rec[of "Suc (Suc 0)"])

text \<open>
  C5, amended. When all months are mounted, the guard does not fire and the scan finds the
  month at index \<open>i\<close>, \<open>onScroll\<close> publishes the subtitle rendered for the value of that month
  whatever the state was before: \<open>setSubtitle\<close> is called once more and the subtitle state
  becomes that label, whether or not the anchor changed.
\<close>

theorem onScroll_publishes:
  assumes "length monthList = length insts"
    and "\<not> (scrollTop bd + rectHeight bd > foldl (+) 0 (map getHeight insts) \<and> scrollTop bd > 0)"
    and "firstVisible (scrollTop bd) (scrollTop bd + rectHeight bd) 0 0 (map getHeight insts)
           = Some i"
  shows "i < length insts \<and>
     onScroll render monthList (map Some insts) bd st =
       Inr (st\<lparr>subtitle := render (getValue (insts ! i)),
               effects := effects st @ [SetSubtitle (render (getValue (insts ! i)))]\<rparr>)"
proof -
  from firstVisible_bound[OF assms(3)] have "i < length insts" by simp
  moreover have "onScroll render monthList (map Some insts) bd st =
       Inr (st\<lparr>subtitle := render (getValue (insts ! i)),
               effects := effects st @ [SetSubtitle (render (getValue (insts ! i)))]\<rparr>)"
    unfolding onScroll_mounted[OF assms(1)] using assms(2,3) by auto
  ultimately show ?thesis by simp
qed

theorem onScroll_publishes_witness:
  "length q1_months = length q1_insts \<and>
   \<not> (scrollTop (mkBody 500 400) + rectHeight (mkBody 500 400)
        > foldl (+) 0 (map getHeight q1_insts) \<and> scrollTop (mkBody 500 400) > 0) \<and>
   firstVisible (scrollTop (mkBody 500 400))
      (scrollTop (mkBody 500 400) + rectHeight (mkBody 500 400)) 0 0 (map getHeight q1_insts)
     = Some 1 \<and>
   1 < length q1_insts \<and>
   onScroll monthLabel q1_months (map Some q1_insts) (mkBody 500 400)
      \<lparr>subtitle = Some ''February'', bodyScrollTop = 0, bodyScrollTopRef = 0,
        effects = [SetSubtitle (Some ''February'')]\<rparr>
     = Inr \<lparr>subtitle = Some ''February'', bodyScrollTop = 0, bodyScrollTopRef = 0,
        effects = [SetSubtitle (Some ''February''), SetSubtitle (Some ''February'')]\<rparr>"
proof -
  have h: "length q1_months = length q1_insts"
    "\<not> (scrollTop (mkBody 500 400) + rectHeight (mkBody 500 400)
        > foldl (+) 0 (map getHeight q1_insts) \<and> scrollTop (mkBody 500 400) > 0)"
    "firstVisible (scrollTop (mkBody 500 400))
      (scrollTop (mkBody 500 400) + rectHeight (mkBody 500 400)) 0 0 (map getHeight q1_insts)
     = Some 1"
    by (simp_all add: scroll_ex)
  from onScroll_publishes[OF h, of monthLabel
      "\<lparr>subtitle = Some ''February'', bodyScrollTop = 0, bodyScrollTopRef = 0,
        effects = [SetSubtitle (Some ''February'')]\<rparr>"] h
  show ?thesis by (simp add: scroll_ex)
qed


section \<open>Active navigation: claim C10\<close>



section \<open>Facts about taps and the initial value\<close>

lemma getDisabledDays_concat:
  "getDisabledDays monthRefs =
     concat (map (\<lambda>ref. case ref of None \<Rightarrow> [] | Some m \<Rightarrow> disabledDays m) monthRefs)"
proof -
  have "\<And>acc. foldl (\<lambda>arr ref. arr @ (case ref of None \<Rightarrow> [] | Some m \<Rightarrow> disabledDays m))
          acc monthRefs
      = acc @ concat (map (\<lambda>ref. case ref of None \<Rightarrow> [] | Some m \<Rightarrow> disabledDays m) monthRefs)"
    by (induction monthRefs) simp_all
  from this[of "[]"] show ?thesis by (simp add: getDisabledDays_def)
qed

lemma getDisabledDate_find:
  assumes "\<forall>x\<in>set days. day_value x \<noteq> None"
  shows "getDisabledDate days startDay d =
     find (betweenDays startDay d) (map (\<lambda>x. the (day_value x)) days)"
  using assms by (induction days) (auto simp: betweenDays_def compareDate_value_def)

lemma find_sorted_first:
  assumes "sorted_wrt R xs" "find P xs = Some v" "w \<in> set xs" "P w"
  shows "w = v \<or> R v w"
  using assms
proof (induction xs)
  case Nil
  then show ?case by simp
next
  case (Cons x xs)
  show ?case
  proof (cases "P x")
    case True
    with Cons.prems(2) have "v = x" by simp
    with Cons.prems(1,3) show ?thesis by auto
  next
    case False
    with Cons.prems(2) have f: "find P xs = Some v" by simp
    from False Cons.prems(3,4) have w: "w \<in> set xs" by auto
    from Cons.prems(1) have "sorted_wrt R xs" by simp
    from Cons.IH[OF this f w Cons.prems(4)] show ?thesis .
  qed
qed

lemma length_filter_eq_iff:
  "length (filter P xs) = length xs \<longleftrightarrow> (\<forall>x\<in>set xs. P x)"
proof (induction xs)
  case Nil
  show ?case by simp
next
  case (Cons a xs)
  show ?case
  proof (cases "P a")
    case True
    with Cons show ?thesis by simp
  next
    case False
    have "length (filter P xs) \<le> length xs" by simp
    then have "length (filter P xs) \<noteq> Suc (length xs)" by linarith
    with False show ?thesis by simp
  qed
qed

lemma count_list_filter:
  "P x \<Longrightarrow> count_list (filter P xs) x = count_list xs x"
  by (induction xs) auto

lemma dayKey_limitDateRange:
  assumes "valid_date d" "valid_date lo" "valid_date hi"
  shows "dayKey (limitDateRange d lo hi) =
     (if dayKey d < dayKey lo then dayKey lo
      else if dayKey hi < dayKey d then dayKey hi else dayKey d)"
  by (simp add: limitDateRange_def compareDate_key assms)

lemma valid_limitDateRange:
  assumes "valid_date d" "valid_date lo" "valid_date hi"
  shows "valid_date (limitDateRange d lo hi)"
  using assms by (simp add: limitDateRange_def)

lemma inBounds_key:
  assumes "valid_date d" "valid_date mn" "valid_date mx"
  shows "inBounds mn mx d \<longleftrightarrow> dayKey mn \<le> dayKey d \<and> dayKey d \<le> dayKey mx"
  by (auto simp: inBounds_def compareDate_key assms)

lemma not_after_key:
  assumes "valid_date a" "valid_date b"
  shows "compareDate a b \<noteq> 1 \<longleftrightarrow> dayKey a \<le> dayKey b"
  by (auto simp: compareDate_key assms)

lemma before_key:
  assumes "valid_date a" "valid_date b"
  shows "compareDate a b = - 1 \<longleftrightarrow> dayKey a < dayKey b"
  by (auto simp: compareDate_key assms)

lemma valid_elementOr:
  assumes "valid_date now" "list_all (\<lambda>x. case x of None \<Rightarrow> True | Some d \<Rightarrow> valid_date d) xs"
  shows "valid_date (elementOr xs i now)"
proof (cases "i < length xs")
  case True
  then have "xs ! i \<in> set xs" by simp
  with assms(2) have "case xs ! i of None \<Rightarrow> True | Some d \<Rightarrow> valid_date d"
    by (simp add: list_all_iff)
  with True assms(1) show ?thesis by (simp add: elementOr_def split: option.splits)
next
  case False
  with assms(1) show ?thesis by (simp add: elementOr_def)
qed

lemma valid_rawArray:
  "rawDatesValid raw \<Longrightarrow>
     list_all (\<lambda>x. case x of None \<Rightarrow> True | Some d \<Rightarrow> valid_date d) (rawArray raw)"
  by (cases raw) (simp_all add: rawArray_def)

lemma getInitialDate_Range:
  "raw \<noteq> RNull \<Longrightarrow> getInitialDate Range now mn mx raw =
     Some (VDates
       [limitDateRange (elementOr (rawArray raw) 0 now) mn (createPreviousDay mx),
        limitDateRange (elementOr (rawArray raw) 1 now) (createNextDay mn) mx])"
  by (simp add: getInitialDate_def rawArray_def Let_def)

lemma range_limits_in_bounds:
  assumes v: "valid_date mn" "valid_date mx" "valid_date a" "valid_date b"
    and lt: "compareDate mn mx = - 1"
  shows "inBounds mn mx (limitDateRange a mn (createPreviousDay mx))"
    and "inBounds mn mx (limitDateRange b (createNextDay mn) mx)"
proof -
  note vp = createPreviousDay_valid[OF v(2)] and vn = createNextDay_valid[OF v(1)]
  have k: "dayKey mn < dayKey mx" using lt by (simp add: before_key v)
  have p: "dayKey (createPreviousDay mx) < dayKey mx" "dayKey mn \<le> dayKey (createPreviousDay mx)"
    using createPreviousDay_less[OF v(2)] createPreviousDay_greatest[OF v(2,1) k] by simp_all
  have n: "dayKey mn < dayKey (createNextDay mn)" "dayKey (createNextDay mn) \<le> dayKey mx"
    using createNextDay_greater[OF v(1)] createNextDay_least[OF v(1,2) k] by simp_all
  show "inBounds mn mx (limitDateRange a mn (createPreviousDay mx))"
    using p by (simp add: inBounds_key valid_limitDateRange dayKey_limitDateRange v vp)
  show "inBounds mn mx (limitDateRange b (createNextDay mn) mx)"
    using n by (simp add: inBounds_key valid_limitDateRange dayKey_limitDateRange v vn)
qed

lemma range_limits_ordered:
  assumes v: "valid_date mn" "valid_date mx" "valid_date a" "valid_date b"
    and le: "compareDate mn mx \<noteq> 1" and ab: "compareDate a b \<noteq> 1"
  shows "compareDate (limitDateRange a mn (createPreviousDay mx))
           (limitDateRange b (createNextDay mn) mx) \<noteq> 1"
proof -
  note vp = createPreviousDay_valid[OF v(2)] and vn = createNextDay_valid[OF v(1)]
  have k: "dayKey mn \<le> dayKey mx" "dayKey a \<le> dayKey b"
    using le ab by (simp_all add: not_after_key v)
  have p: "dayKey (createPreviousDay mx) < dayKey mx"
    using createPreviousDay_less[OF v(2)] .
  have n: "dayKey mn < dayKey (createNextDay mn)"
    using createNextDay_greater[OF v(1)] .
  have "dayKey (limitDateRange a mn (createPreviousDay mx))
      \<le> dayKey (limitDateRange b (createNextDay mn) mx)"
    using k p n by (simp add: dayKey_limitDateRange v vp vn)
  then show ?thesis
    by (simp add: not_after_key valid_limitDateRange v vp vn)
qed

lemma limit_in_bounds:
  assumes "valid_date d" "valid_date mn" "valid_date mx" "compareDate mn mx \<noteq> 1"
  shows "inBounds mn mx (limitDateRange d mn mx)"
  using assms(4)
  by (simp add: inBounds_key valid_limitDateRange dayKey_limitDateRange not_after_key assms(1-3))

lemma compareDate_flip: "compareDate a b = 1 \<Longrightarrow> compareDate b a \<noteq> 1"
  by (auto simp: compareDate_def compareYearMonth_def Let_def split: if_splits)

lemma compareDate_refl: "compareDate a a = 0"
  by (simp add: compareDate_def compareYearMonth_def)

lemma getDisabledDate_Some:
  "getDisabledDate days startDay d = Some v \<Longrightarrow>
     (\<exists>x\<in>set days. day_value x = Some v) \<and> compareDate startDay v = - 1"
  by (induction days) (auto simp: compareDate_value_def split: option.splits if_splits)

lemma limitDateRange_value_in_bounds:
  assumes "valid_date mn" "valid_date mx" "compareDate mn mx \<noteq> 1"
    and "case x of None \<Rightarrow> True | Some d \<Rightarrow> valid_date d"
  shows "inBounds mn mx (limitDateRange_value x mn mx)"
proof (cases x)
  case None
  with assms(3) show ?thesis
    by (simp add: limitDateRange_value_def inBounds_def compareDate_refl)
next
  case (Some d)
  with assms(4) have "valid_date d" by simp
  from limit_in_bounds[OF this assms(1-3)] Some show ?thesis
    by (simp add: limitDateRange_value_def)
qed

lemma limitDateRange_inside:
  "inBounds lo hi d \<Longrightarrow> limitDateRange d lo hi = d"
  by (simp add: limitDateRange_def inBounds_def)

lemmas tap_ex = mkDate_def jan_disabled_def winter_disabled_def getDisabledDays_def betweenDays_def
  compareDate_def compareYearMonth_def compareDate_value_def

lemmas date_ex = mkDate_def valid_date_def daysInMonth_def isLeapYear_def compareDate_def
  compareYearMonth_def createPreviousDay_def createNextDay_def setDate_def makeDay_def
  carryDay.simps prevMonth_def nextMonth_def

section \<open>Taps in range mode: claims C3 and C9\<close>

text \<open>
  C3. In range mode with the current value \<open>[startDay]\<close> (start set, end absent), a tap on
  a day \<open>d\<close> after \<open>startDay\<close>. The disabled days are those of all mounted months, month after
  month in the order of the refs, each of them with a date. If one of them lies strictly
  between \<open>startDay\<close> and \<open>d\<close>, the new value is \<open>[startDay, createPreviousDay v]\<close> for the
  first such day \<open>v\<close> in that order; otherwise the new value is \<open>[startDay, d]\<close>. When the
  disabled days are listed in chronological order, \<open>v\<close> is not after any disabled day
  strictly between \<open>startDay\<close> and \<open>d\<close>: it is the earliest of them.
\<close>

theorem onDayClick_range_extend:
  assumes "day_value day = Some d"
    and "compareDate d startDay = 1"
    and "\<forall>x\<in>set (concat (map (\<lambda>ref. case ref of None \<Rightarrow> [] | Some m \<Rightarrow> disabledDays m)
                 monthRefs)). day_value x \<noteq> None"
  shows "let vs = map (\<lambda>x. the (day_value x))
                 (concat (map (\<lambda>ref. case ref of None \<Rightarrow> [] | Some m \<Rightarrow> disabledDays m)
                    monthRefs))
     in onDayClick Range False (Some (VDates [startDay])) monthRefs day =
          Inr (Some (VDates
            (case find (betweenDays startDay d) vs of
               Some v \<Rightarrow> [startDay, createPreviousDay v]
             | None \<Rightarrow> [startDay, d]))) \<and>
        (sorted_wrt (\<lambda>a b. compareDate a b \<noteq> 1) vs \<longrightarrow>
           (\<forall>v. find (betweenDays startDay d) vs = Some v \<longrightarrow>
              (\<forall>w\<in>set vs. betweenDays startDay d w \<longrightarrow> compareDate v w \<noteq> 1)))"
proof -
  let ?days = "concat (map (\<lambda>ref. case ref of None \<Rightarrow> [] | Some m \<Rightarrow> disabledDays m) monthRefs)"
  let ?vs = "map (\<lambda>x. the (day_value x)) ?days"
  have g: "getDisabledDate (getDisabledDays monthRefs) startDay d
      = find (betweenDays startDay d) ?vs"
    unfolding getDisabledDays_concat by (rule getDisabledDate_find[OF assms(3)])
  have r: "onDayClick Range False (Some (VDates [startDay])) monthRefs day =
          Inr (Some (VDates
            (case find (betweenDays startDay d) ?vs of
               Some v \<Rightarrow> [startDay, createPreviousDay v]
             | None \<Rightarrow> [startDay, d])))"
    using assms(1,2) by (simp add: onDayClick_def g Let_def split: option.splits)
  have e: "sorted_wrt (\<lambda>a b. compareDate a b \<noteq> 1) ?vs \<longrightarrow>
           (\<forall>v. find (betweenDays startDay d) ?vs = Some v \<longrightarrow>
              (\<forall>w\<in>set ?vs. betweenDays startDay d w \<longrightarrow> compareDate v w \<noteq> 1))"
  proof (intro impI allI ballI)
    fix v w
    assume "sorted_wrt (\<lambda>a b. compareDate a b \<noteq> 1) ?vs"
      and "find (betweenDays startDay d) ?vs = Some v"
      and "w \<in> set ?vs" and "betweenDays startDay d w"
    from find_sorted_first[OF this] show "compareDate v w \<noteq> 1"
      by (auto simp: compareDate_refl)
  qed
  from r e show ?thesis unfolding Let_def by (rule conjI)
qed

theorem onDayClick_range_extend_witness:
  "day_value \<lparr>day_value = Some (mkDate 2024 1 5)\<rparr> = Some (mkDate 2024 1 5) \<and>
   compareDate (mkDate 2024 1 5) (mkDate 2024 0 28) = 1 \<and>
   map day_value (concat (map (\<lambda>ref. case ref of None \<Rightarrow> [] | Some m \<Rightarrow> disabledDays m)
       winter_disabled))
     = [Some (mkDate 2024 0 15), Some (mkDate 2024 0 18), Some (mkDate 2024 1 2)] \<and>
   find (betweenDays (mkDate 2024 0 28) (mkDate 2024 1 5))
       [mkDate 2024 0 15, mkDate 2024 0 18, mkDate 2024 1 2] = Some (mkDate 2024 1 2) \<and>
   createPreviousDay (mkDate 2024 1 2) = mkDate 2024 1 1 \<and>
   onDayClick Range False (Some (VDates [mkDate 2024 0 28])) winter_disabled
      \<lparr>day_value = Some (mkDate 2024 1 5)\<rparr>
     = Inr (Some (VDates [mkDate 2024 0 28, mkDate 2024 1 1])) \<and>
   sorted_wrt (\<lambda>a b. compareDate a b \<noteq> 1)
       [mkDate 2024 0 15, mkDate 2024 0 18, mkDate 2024 1 2] \<and>
   list_all (\<lambda>w. betweenDays (mkDate 2024 0 28) (mkDate 2024 1 5) w \<longrightarrow>
                compareDate (mkDate 2024 1 2) w \<noteq> 1)
       [mkDate 2024 0 15, mkDate 2024 0 18, mkDate 2024 1 2]"
proof -
  let ?days = "concat (map (\<lambda>ref. case ref of None \<Rightarrow> [] | Some m \<Rightarrow> disabledDays m)
       winter_disabled)"
  have h: "day_value \<lparr>day_value = Some (mkDate 2024 1 5)\<rparr> = Some (mkDate 2024 1 5)"
    "compareDate (mkDate 2024 1 5) (mkDate 2024 0 28) = 1"
    "\<forall>x\<in>set ?days. day_value x \<noteq> None"
    by (simp_all add: tap_ex)
  have d: "map day_value ?days
     = [Some (mkDate 2024 0 15), Some (mkDate 2024 0 18), Some (mkDate 2024 1 2)]"
    and vs: "map (\<lambda>x. the (day_value x)) ?days
     = [mkDate 2024 0 15, mkDate 2024 0 18, mkDate 2024 1 2]"
    by (simp_all add: winter_disabled_def)
  have f: "find (betweenDays (mkDate 2024 0 28) (mkDate 2024 1 5))
       [mkDate 2024 0 15, mkDate 2024 0 18, mkDate 2024 1 2] = Some (mkDate 2024 1 2)"
    by (simp add: tap_ex)
  have p: "createPreviousDay (mkDate 2024 1 2) = mkDate 2024 1 1"
    by (simp add: createPreviousDay_def setDate_def makeDay_def mkDate_def carryDay.simps
        daysInMonth_def)
  have s: "sorted_wrt (\<lambda>a b. compareDate a b \<noteq> 1)
       [mkDate 2024 0 15, mkDate 2024 0 18, mkDate 2024 1 2]"
    by (simp add: tap_ex)
  note t = onDayClick_range_extend[OF h, unfolded Let_def vs f]
  from t p have 1: "onDayClick Range False (Some (VDates [mkDate 2024 0 28])) winter_disabled
      \<lparr>day_value = Some (mkDate 2024 1 5)\<rparr>
     = Inr (Some (VDates [mkDate 2024 0 28, mkDate 2024 1 1]))"
    by simp
  from t s have 2: "list_all (\<lambda>w. betweenDays (mkDate 2024 0 28) (mkDate 2024 1 5) w \<longrightarrow>
                compareDate (mkDate 2024 1 2) w \<noteq> 1)
       [mkDate 2024 0 15, mkDate 2024 0 18, mkDate 2024 1 2]"
    unfolding list_all_iff by blast
  from h(1,2) d f p 1 s 2 show ?thesis by simp
qed

text \<open>
  C9. In range mode with the current value \<open>[startDay]\<close>, a tap on a day \<open>d\<close> before
  \<open>startDay\<close> gives \<open>[d]\<close>, and a tap on a day that is day-equal to \<open>startDay\<close> gives
  \<open>[d, d]\<close>.
\<close>

theorem onDayClick_range_not_after:
  assumes "day_value day = Some d"
  shows "(compareDate d startDay = - 1 \<longrightarrow>
       onDayClick Range False (Some (VDates [startDay])) monthRefs day
         = Inr (Some (VDates [d]))) \<and>
     (compareDate d startDay = 0 \<longrightarrow>
       onDayClick Range False (Some (VDates [startDay])) monthRefs day
         = Inr (Some (VDates [d, d])))"
  using assms by (simp add: onDayClick_def Let_def)

theorem onDayClick_range_not_after_witness:
  "day_value \<lparr>day_value = Some (mkDate 2024 0 5)\<rparr> = Some (mkDate 2024 0 5) \<and>
   compareDate (mkDate 2024 0 5) (mkDate 2024 0 10) = - 1 \<and>
   onDayClick Range False (Some (VDates [mkDate 2024 0 10])) jan_disabled
      \<lparr>day_value = Some (mkDate 2024 0 5)\<rparr> = Inr (Some (VDates [mkDate 2024 0 5])) \<and>
   compareDate (mkDate 2024 0 5) (mkDate 2024 0 5\<lparr>timeOfDay := 3600000\<rparr>) = 0 \<and>
   onDayClick Range False (Some (VDates [mkDate 2024 0 5\<lparr>timeOfDay := 3600000\<rparr>])) jan_disabled
      \<lparr>day_value = Some (mkDate 2024 0 5)\<rparr>
     = Inr (Some (VDates [mkDate 2024 0 5, mkDate 2024 0 5]))"
proof -
  have h: "day_value \<lparr>day_value = Some (mkDate 2024 0 5)\<rparr> = Some (mkDate 2024 0 5)"
    by simp
  have c: "compareDate (mkDate 2024 0 5) (mkDate 2024 0 10) = - 1"
    "compareDate (mkDate 2024 0 5) (mkDate 2024 0 5\<lparr>timeOfDay := 3600000\<rparr>) = 0"
    by (simp_all add: tap_ex)
  from onDayClick_range_not_after[OF h, of "mkDate 2024 0 10" jan_disabled]
    onDayClick_range_not_after[OF h, of "mkDate 2024 0 5\<lparr>timeOfDay := 3600000\<rparr>" jan_disabled]
    c
  show ?thesis by simp
qed

section \<open>Taps in multiple mode: claim C8\<close>

text \<open>
  C8. In multiple mode with a current list of dates: if some element is day-equal to the
  tapped day \<open>d\<close>, the new value is the list without the elements that are day-equal to \<open>d\<close>;
  it is a subsequence of the old list (the order is kept), and every other date is in it as
  often as before. If no element is day-equal to \<open>d\<close>, the new value is the old list with
  \<open>d\<close> appended.
\<close>

theorem onDayClick_multiple_toggle:
  assumes "day_value day = Some d"
  shows "((\<exists>x\<in>set dates. compareDate x d = 0) \<longrightarrow>
       (\<exists>newDates.
          onDayClick Multiple False (Some (VDates dates)) monthRefs day
            = Inr (Some (VDates newDates)) \<and>
          newDates = filter (\<lambda>x. compareDate x d \<noteq> 0) dates \<and>
          subseq newDates dates \<and>
          (\<forall>x. x \<in> set newDates \<longleftrightarrow> x \<in> set dates \<and> compareDate x d \<noteq> 0) \<and>
          (\<forall>x. compareDate x d \<noteq> 0 \<longrightarrow> count_list newDates x = count_list dates x))) \<and>
     (\<not> (\<exists>x\<in>set dates. compareDate x d = 0) \<longrightarrow>
       onDayClick Multiple False (Some (VDates dates)) monthRefs day
         = Inr (Some (VDates (dates @ [d]))))"
proof -
  let ?new = "filter (\<lambda>x. compareDate x d \<noteq> 0) dates"
  have l: "length ?new = length dates \<longleftrightarrow> \<not> (\<exists>x\<in>set dates. compareDate x d = 0)"
    by (simp add: length_filter_eq_iff)
  have r: "onDayClick Multiple False (Some (VDates dates)) monthRefs day =
      (if \<exists>x\<in>set dates. compareDate x d = 0 then Inr (Some (VDates ?new))
       else Inr (Some (VDates (dates @ [d]))))"
    using assms l by (simp add: onDayClick_def Let_def)
  have s: "subseq ?new dates" by simp
  have m: "\<forall>x. x \<in> set ?new \<longleftrightarrow> x \<in> set dates \<and> compareDate x d \<noteq> 0" by auto
  have c: "\<forall>x. compareDate x d \<noteq> 0 \<longrightarrow> count_list ?new x = count_list dates x"
    using count_list_filter[of "\<lambda>x. compareDate x d \<noteq> 0"] by blast
  show ?thesis using r s m c by simp
qed

theorem onDayClick_multiple_toggle_witness:
  "day_value \<lparr>day_value = Some (mkDate 2024 0 5)\<rparr> = Some (mkDate 2024 0 5) \<and>
   list_ex (\<lambda>x. compareDate x (mkDate 2024 0 5) = 0)
     [mkDate 2024 0 3, mkDate 2024 0 5\<lparr>timeOfDay := 3600000\<rparr>, mkDate 2024 0 9] \<and>
   onDayClick Multiple False
       (Some (VDates [mkDate 2024 0 3, mkDate 2024 0 5\<lparr>timeOfDay := 3600000\<rparr>, mkDate 2024 0 9]))
       [] \<lparr>day_value = Some (mkDate 2024 0 5)\<rparr>
     = Inr (Some (VDates [mkDate 2024 0 3, mkDate 2024 0 9])) \<and>
   day_value \<lparr>day_value = Some (mkDate 2024 0 7)\<rparr> = Some (mkDate 2024 0 7) \<and>
   \<not> list_ex (\<lambda>x. compareDate x (mkDate 2024 0 7) = 0)
     [mkDate 2024 0 3, mkDate 2024 0 5\<lparr>timeOfDay := 3600000\<rparr>, mkDate 2024 0 9] \<and>
   onDayClick Multiple False
       (Some (VDates [mkDate 2024 0 3, mkDate 2024 0 5\<lparr>timeOfDay := 3600000\<rparr>, mkDate 2024 0 9]))
       [] \<lparr>day_value = Some (mkDate 2024 0 7)\<rparr>
     = Inr (Some (VDates [mkDate 2024 0 3, mkDate 2024 0 5\<lparr>timeOfDay := 3600000\<rparr>,
          mkDate 2024 0 9, mkDate 2024 0 7]))"
proof -
  let ?ds = "[mkDate 2024 0 3, mkDate 2024 0 5\<lparr>timeOfDay := 3600000\<rparr>, mkDate 2024 0 9]"
  have h: "day_value \<lparr>day_value = Some (mkDate 2024 0 5)\<rparr> = Some (mkDate 2024 0 5)"
    "day_value \<lparr>day_value = Some (mkDate 2024 0 7)\<rparr> = Some (mkDate 2024 0 7)"
    by simp_all
  have p: "\<exists>x\<in>set ?ds. compareDate x (mkDate 2024 0 5) = 0"
    "\<not> (\<exists>x\<in>set ?ds. compareDate x (mkDate 2024 0 7) = 0)"
    by (simp_all add: date_ex)
  have f: "filter (\<lambda>x. compareDate x (mkDate 2024 0 5) \<noteq> 0) ?ds
      = [mkDate 2024 0 3, mkDate 2024 0 9]"
    by (simp add: date_ex)
  from onDayClick_multiple_toggle[OF h(1), of ?ds "[]", THEN conjunct1] p(1) f
  have 1: "onDayClick Multiple False (Some (VDates ?ds)) [] \<lparr>day_value = Some (mkDate 2024 0 5)\<rparr>
      = Inr (Some (VDates [mkDate 2024 0 3, mkDate 2024 0 9]))"
    by auto
  from onDayClick_multiple_toggle[OF h(2), of ?ds "[]", THEN conjunct2] p(2)
  have 2: "onDayClick Multiple False (Some (VDates ?ds)) [] \<lparr>day_value = Some (mkDate 2024 0 7)\<rparr>
      = Inr (Some (VDates (?ds @ [mkDate 2024 0 7])))"
    by blast
  from h p 1 2 show ?thesis by (simp add: list_ex_iff)
qed

section \<open>The initial value: claims C7 and C4\<close>

text \<open>
  C7, as stated, fails. In range mode the start is limited to the day before \<open>maxValue\<close> and
  the end to the day after \<open>minValue\<close>. With \<open>minValue\<close> = \<open>maxValue\<close> = today = 15 January
  2024 and an undefined default, the result is \<open>[14 January, 16 January]\<close>: both dates lie
  outside the bounds.
\<close>

theorem getInitialDate_in_bounds_counterexample:
  "compareDate (mkDate 2024 0 15) (mkDate 2024 0 15) = 0 \<and>
   getInitialDate Range (mkDate 2024 0 15) (mkDate 2024 0 15) (mkDate 2024 0 15) RUndefined
     = Some (VDates [mkDate 2024 0 14, mkDate 2024 0 16]) \<and>
   compareDate (mkDate 2024 0 14) (mkDate 2024 0 15) = - 1 \<and>
   compareDate (mkDate 2024 0 16) (mkDate 2024 0 15) = 1"
  by (simp add: getInitialDate_def limitDateRange_def elementOr_def date_ex)

text \<open>
  C7, amended. For bounds and dates of the calendar with \<open>minValue\<close> not after \<open>maxValue\<close>,
  and every raw default that is not the \<open>null\<close> sentinel (null-ish elements and values of
  the wrong shape included), \<open>getInitialDate\<close> returns a value all of whose dates lie within
  the bounds: in single mode and in multiple mode always, in range mode when \<open>minValue\<close> is
  strictly before \<open>maxValue\<close>.
\<close>

theorem getInitialDate_in_bounds:
  assumes "valid_date minValue" "valid_date maxValue" "valid_date now"
    and "rawDatesValid defaultDate"
    and "defaultDate \<noteq> RNull"
    and "compareDate minValue maxValue \<noteq> 1"
    and "type = Range \<longrightarrow> compareDate minValue maxValue = - 1"
  shows "\<exists>v. getInitialDate type now minValue maxValue defaultDate = Some v \<and>
     valueInBounds minValue maxValue v"
proof (cases type)
  case Single
  let ?d = "case defaultDate of RDate d \<Rightarrow> d | _ \<Rightarrow> now"
  have "valid_date ?d" using assms(3,4) by (cases defaultDate) simp_all
  from limit_in_bounds[OF this assms(1,2,6)] show ?thesis
    using Single assms(5) by (simp add: getInitialDate_def)
next
  case Multiple
  show ?thesis
  proof (cases defaultDate)
    case (RArray xs)
    have "list_all (inBounds minValue maxValue)
        (map (\<lambda>date. limitDateRange_value date minValue maxValue) xs)"
      unfolding list_all_iff
    proof
      fix y assume "y \<in> set (map (\<lambda>date. limitDateRange_value date minValue maxValue) xs)"
      then obtain x where x: "x \<in> set xs" "y = limitDateRange_value x minValue maxValue"
        by auto
      from x(1) assms(4) RArray have "case x of None \<Rightarrow> True | Some d \<Rightarrow> valid_date d"
        by (simp add: list_all_iff)
      from limitDateRange_value_in_bounds[OF assms(1,2,6) this] x(2)
      show "inBounds minValue maxValue y" by simp
    qed
    then show ?thesis
      using Multiple RArray by (simp add: getInitialDate_def)
  next
    case RNull
    with assms(5) show ?thesis by simp
  next
    case RUndefined
    with limit_in_bounds[OF assms(3,1,2,6)] Multiple show ?thesis
      by (simp add: getInitialDate_def)
  next
    case (RDate d)
    with limit_in_bounds[OF assms(3,1,2,6)] Multiple show ?thesis
      by (simp add: getInitialDate_def)
  qed
next
  case Range
  let ?a = "elementOr (rawArray defaultDate) 0 now"
  let ?b = "elementOr (rawArray defaultDate) 1 now"
  have v: "valid_date ?a" "valid_date ?b"
    using valid_elementOr[OF assms(3) valid_rawArray[OF assms(4)]] by simp_all
  have lt: "compareDate minValue maxValue = - 1" using assms(7) Range by simp
  from range_limits_in_bounds[OF assms(1,2) v lt] show ?thesis
    using Range by (simp add: getInitialDate_Range[OF assms(5)])
qed

theorem getInitialDate_in_bounds_witness:
  "valid_date (mkDate 2024 0 1) \<and> valid_date (mkDate 2024 2 31) \<and> valid_date (mkDate 2024 1 10) \<and>
   compareDate (mkDate 2024 0 1) (mkDate 2024 2 31) = - 1 \<and>
   rawDatesValid (RArray [Some (mkDate 2023 11 25), None]) \<and>
   RArray [Some (mkDate 2023 11 25), None] \<noteq> RNull \<and>
   getInitialDate Range (mkDate 2024 1 10) (mkDate 2024 0 1) (mkDate 2024 2 31)
       (RArray [Some (mkDate 2023 11 25), None])
     = Some (VDates [mkDate 2024 0 1, mkDate 2024 1 10]) \<and>
   (\<exists>v. getInitialDate Range (mkDate 2024 1 10) (mkDate 2024 0 1) (mkDate 2024 2 31)
       (RArray [Some (mkDate 2023 11 25), None]) = Some v \<and>
     valueInBounds (mkDate 2024 0 1) (mkDate 2024 2 31) v) \<and>
   rawDatesValid (RArray [Some (mkDate 2023 11 25), None, Some (mkDate 2024 3 5)]) \<and>
   RArray [Some (mkDate 2023 11 25), None, Some (mkDate 2024 3 5)] \<noteq> RNull \<and>
   getInitialDate Multiple (mkDate 2024 1 10) (mkDate 2024 0 1) (mkDate 2024 2 31)
       (RArray [Some (mkDate 2023 11 25), None, Some (mkDate 2024 3 5)])
     = Some (VDates [mkDate 2024 0 1, mkDate 2024 0 1, mkDate 2024 2 31]) \<and>
   (\<exists>v. getInitialDate Multiple (mkDate 2024 1 10) (mkDate 2024 0 1) (mkDate 2024 2 31)
       (RArray [Some (mkDate 2023 11 25), None, Some (mkDate 2024 3 5)]) = Some v \<and>
     valueInBounds (mkDate 2024 0 1) (mkDate 2024 2 31) v)"
proof -
  have h: "valid_date (mkDate 2024 0 1)" "valid_date (mkDate 2024 2 31)"
    "valid_date (mkDate 2024 1 10)"
    by (simp_all add: date_ex)
  have c: "compareDate (mkDate 2024 0 1) (mkDate 2024 2 31) = - 1"
    "compareDate (mkDate 2024 0 1) (mkDate 2024 2 31) \<noteq> 1"
    by (simp_all add: date_ex)
  have r: "rawDatesValid (RArray [Some (mkDate 2023 11 25), None])"
    "RArray [Some (mkDate 2023 11 25), None] \<noteq> RNull"
    "Range = Range \<longrightarrow> compareDate (mkDate 2024 0 1) (mkDate 2024 2 31) = - 1"
    by (simp_all add: date_ex)
  have m: "rawDatesValid (RArray [Some (mkDate 2023 11 25), None, Some (mkDate 2024 3 5)])"
    "RArray [Some (mkDate 2023 11 25), None, Some (mkDate 2024 3 5)] \<noteq> RNull"
    "Multiple = Range \<longrightarrow> compareDate (mkDate 2024 0 1) (mkDate 2024 2 31) = - 1"
    by (simp_all add: date_ex)
  have e: "getInitialDate Range (mkDate 2024 1 10) (mkDate 2024 0 1) (mkDate 2024 2 31)
       (RArray [Some (mkDate 2023 11 25), None])
     = Some (VDates [mkDate 2024 0 1, mkDate 2024 1 10])"
    "getInitialDate Multiple (mkDate 2024 1 10) (mkDate 2024 0 1) (mkDate 2024 2 31)
       (RArray [Some (mkDate 2023 11 25), None, Some (mkDate 2024 3 5)])
     = Some (VDates [mkDate 2024 0 1, mkDate 2024 0 1, mkDate 2024 2 31])"
    by (simp_all add: getInitialDate_def limitDateRange_value_def limitDateRange_def
        elementOr_def date_ex)
  from getInitialDate_in_bounds[OF h r(1,2) c(2) r(3)]
    getInitialDate_in_bounds[OF h m(1,2) c(2) m(3)] h c(1) r(1,2) m(1,2) e
  show ?thesis by simp
qed

text \<open>
  C4, as stated, fails for the initial value: \<open>getInitialDate\<close> limits the two elements of
  the raw default one by one and never compares them. With bounds 1 January to 31 March 2024
  and the raw default \<open>[20 January, 10 January]\<close> it returns that pair, start after end.
\<close>

theorem range_start_not_after_end_counterexample:
  "getInitialDate Range (mkDate 2024 1 10) (mkDate 2024 0 1) (mkDate 2024 2 31)
       (RArray [Some (mkDate 2024 0 20), Some (mkDate 2024 0 10)])
     = Some (VDates [mkDate 2024 0 20, mkDate 2024 0 10]) \<and>
   compareDate (mkDate 2024 0 20) (mkDate 2024 0 10) = 1"
  by (simp add: getInitialDate_def limitDateRange_def elementOr_def date_ex)

text \<open>
  C4, amended, all dates being dates of the calendar. Every value with two elements that a
  tap in range mode produces has its start not after its end. The initial value in range mode
  has its start not after its end when \<open>minValue\<close> is not after \<open>maxValue\<close> and the raw start
  (or today) is not after the raw end (or today). When the raw start (or today) lies between
  \<open>minValue\<close> and the day before \<open>maxValue\<close>, and the raw end (or today) between the day after
  \<open>minValue\<close> and \<open>maxValue\<close>, the initial value is that pair unchanged, whatever its order.
\<close>

theorem range_start_not_after_end:
  "(day_value day = Some d \<and>
    (case currentValue of Some (VDates cv) \<Rightarrow> list_all valid_date cv | _ \<Rightarrow> True) \<and>
    list_all (\<lambda>x. case day_value x of None \<Rightarrow> True | Some v \<Rightarrow> valid_date v)
      (concat (map (\<lambda>ref. case ref of None \<Rightarrow> [] | Some m \<Rightarrow> disabledDays m) monthRefs)) \<and>
    onDayClick Range readonly currentValue monthRefs day = Inr (Some (VDates [s, e]))
      \<longrightarrow> compareDate s e \<noteq> 1) \<and>
   (valid_date minValue \<and> valid_date maxValue \<and> valid_date now \<and> rawDatesValid defaultDate \<and>
    compareDate minValue maxValue \<noteq> 1 \<and>
    compareDate (elementOr (rawArray defaultDate) 0 now)
      (elementOr (rawArray defaultDate) 1 now) \<noteq> 1 \<and>
    getInitialDate Range now minValue maxValue defaultDate = Some (VDates [s', e'])
      \<longrightarrow> compareDate s' e' \<noteq> 1) \<and>
   (defaultDate \<noteq> RNull \<and>
    inBounds minValue (createPreviousDay maxValue) (elementOr (rawArray defaultDate) 0 now) \<and>
    inBounds (createNextDay minValue) maxValue (elementOr (rawArray defaultDate) 1 now)
      \<longrightarrow> getInitialDate Range now minValue maxValue defaultDate =
            Some (VDates [elementOr (rawArray defaultDate) 0 now,
                          elementOr (rawArray defaultDate) 1 now]))"
proof (intro conjI impI)
  assume a: "day_value day = Some d \<and>
    (case currentValue of Some (VDates cv) \<Rightarrow> list_all valid_date cv | _ \<Rightarrow> True) \<and>
    list_all (\<lambda>x. case day_value x of None \<Rightarrow> True | Some v \<Rightarrow> valid_date v)
      (concat (map (\<lambda>ref. case ref of None \<Rightarrow> [] | Some m \<Rightarrow> disabledDays m) monthRefs)) \<and>
    onDayClick Range readonly currentValue monthRefs day = Inr (Some (VDates [s, e]))"
  then have r: "onDayClick Range readonly currentValue monthRefs day = Inr (Some (VDates [s, e]))"
    and dv: "day_value day = Some d" by simp_all
  from a have da: "list_all (\<lambda>x. case day_value x of None \<Rightarrow> True | Some v \<Rightarrow> valid_date v)
      (getDisabledDays monthRefs)"
    unfolding getDisabledDays_concat by simp
  from r dv obtain startDay where cv: "currentValue = Some (VDates [startDay])" "\<not> readonly"
    by (auto simp: onDayClick_def Let_def
        split: if_splits option.splits calendar_value.splits list.splits)
  with a have vs: "valid_date startDay" by simp
  show "compareDate s e \<noteq> 1"
  proof (cases "compareDate d startDay = 1")
    case True
    show ?thesis
    proof (cases "getDisabledDate (getDisabledDays monthRefs) startDay d")
      case None
      with r dv cv True have "s = startDay" "e = d" by (simp_all add: onDayClick_def)
      with compareDate_flip[OF True] show ?thesis by simp
    next
      case (Some v)
      with r dv cv True have se: "s = startDay" "e = createPreviousDay v"
        by (simp_all add: onDayClick_def)
      from getDisabledDate_Some[OF Some]
      obtain x where x: "x \<in> set (getDisabledDays monthRefs)" "day_value x = Some v"
        and lt: "compareDate startDay v = - 1" by blast
      from da x have vv: "valid_date v" by (auto simp: list_all_iff)
      have "dayKey startDay < dayKey v" using lt by (simp add: before_key vs vv)
      from createPreviousDay_greatest[OF vv vs this] show ?thesis
        unfolding se by (simp add: not_after_key vs createPreviousDay_valid[OF vv])
    qed
  next
    case False
    with r dv cv have "s = d \<and> e = d"
      by (auto simp: onDayClick_def Let_def split: if_splits)
    then show ?thesis by (simp add: compareDate_refl)
  qed
next
  assume b: "valid_date minValue \<and> valid_date maxValue \<and> valid_date now \<and>
    rawDatesValid defaultDate \<and> compareDate minValue maxValue \<noteq> 1 \<and>
    compareDate (elementOr (rawArray defaultDate) 0 now)
      (elementOr (rawArray defaultDate) 1 now) \<noteq> 1 \<and>
    getInitialDate Range now minValue maxValue defaultDate = Some (VDates [s', e'])"
  then have nn: "defaultDate \<noteq> RNull" by (auto simp: getInitialDate_def)
  from b have v: "valid_date (elementOr (rawArray defaultDate) 0 now)"
      "valid_date (elementOr (rawArray defaultDate) 1 now)"
    using valid_elementOr valid_rawArray by simp_all
  from b have se: "s' = limitDateRange (elementOr (rawArray defaultDate) 0 now) minValue
        (createPreviousDay maxValue)"
      "e' = limitDateRange (elementOr (rawArray defaultDate) 1 now) (createNextDay minValue)
        maxValue"
    by (simp_all add: getInitialDate_Range[OF nn])
  from b range_limits_ordered[OF _ _ v] show "compareDate s' e' \<noteq> 1"
    unfolding se by simp
next
  assume c: "defaultDate \<noteq> RNull \<and>
    inBounds minValue (createPreviousDay maxValue) (elementOr (rawArray defaultDate) 0 now) \<and>
    inBounds (createNextDay minValue) maxValue (elementOr (rawArray defaultDate) 1 now)"
  then show "getInitialDate Range now minValue maxValue defaultDate =
            Some (VDates [elementOr (rawArray defaultDate) 0 now,
                          elementOr (rawArray defaultDate) 1 now])"
    by (simp add: getInitialDate_Range limitDateRange_inside)
qed

theorem range_start_not_after_end_witness:
  "day_value \<lparr>day_value = Some (mkDate 2024 1 5)\<rparr> = Some (mkDate 2024 1 5) \<and>
   list_all valid_date [mkDate 2024 0 28] \<and>
   list_all (\<lambda>x. case day_value x of None \<Rightarrow> True | Some v \<Rightarrow> valid_date v)
      (concat (map (\<lambda>ref. case ref of None \<Rightarrow> [] | Some m \<Rightarrow> disabledDays m) winter_disabled)) \<and>
   onDayClick Range False (Some (VDates [mkDate 2024 0 28])) winter_disabled
      \<lparr>day_value = Some (mkDate 2024 1 5)\<rparr>
     = Inr (Some (VDates [mkDate 2024 0 28, mkDate 2024 1 1])) \<and>
   compareDate (mkDate 2024 0 28) (mkDate 2024 1 1) \<noteq> 1 \<and>
   valid_date (mkDate 2024 0 1) \<and> valid_date (mkDate 2024 2 31) \<and> valid_date (mkDate 2024 1 10) \<and>
   rawDatesValid (RArray [Some (mkDate 2024 0 10), Some (mkDate 2024 0 20)]) \<and>
   compareDate (mkDate 2024 0 1) (mkDate 2024 2 31) \<noteq> 1 \<and>
   compareDate (elementOr (rawArray (RArray [Some (mkDate 2024 0 10), Some (mkDate 2024 0 20)])) 0
        (mkDate 2024 1 10))
     (elementOr (rawArray (RArray [Some (mkDate 2024 0 10), Some (mkDate 2024 0 20)])) 1
        (mkDate 2024 1 10)) \<noteq> 1 \<and>
   getInitialDate Range (mkDate 2024 1 10) (mkDate 2024 0 1) (mkDate 2024 2 31)
       (RArray [Some (mkDate 2024 0 10), Some (mkDate 2024 0 20)])
     = Some (VDates [mkDate 2024 0 10, mkDate 2024 0 20]) \<and>
   compareDate (mkDate 2024 0 10) (mkDate 2024 0 20) \<noteq> 1 \<and>
   RArray [Some (mkDate 2024 0 20), Some (mkDate 2024 0 10)] \<noteq> RNull \<and>
   inBounds (mkDate 2024 0 1) (createPreviousDay (mkDate 2024 2 31))
     (elementOr (rawArray (RArray [Some (mkDate 2024 0 20), Some (mkDate 2024 0 10)])) 0
        (mkDate 2024 1 10)) \<and>
   inBounds (createNextDay (mkDate 2024 0 1)) (mkDate 2024 2 31)
     (elementOr (rawArray (RArray [Some (mkDate 2024 0 20), Some (mkDate 2024 0 10)])) 1
        (mkDate 2024 1 10)) \<and>
   getInitialDate Range (mkDate 2024 1 10) (mkDate 2024 0 1) (mkDate 2024 2 31)
       (RArray [Some (mkDate 2024 0 20), Some (mkDate 2024 0 10)])
     = Some (VDates [mkDate 2024 0 20, mkDate 2024 0 10])"
proof -
  let ?ok = "RArray [Some (mkDate 2024 0 10), Some (mkDate 2024 0 20)]"
  let ?rev = "RArray [Some (mkDate 2024 0 20), Some (mkDate 2024 0 10)]"
  have a: "day_value \<lparr>day_value = Some (mkDate 2024 1 5)\<rparr> = Some (mkDate 2024 1 5)"
    "list_all valid_date [mkDate 2024 0 28]"
    "list_all (\<lambda>x. case day_value x of None \<Rightarrow> True | Some v \<Rightarrow> valid_date v)
      (concat (map (\<lambda>ref. case ref of None \<Rightarrow> [] | Some m \<Rightarrow> disabledDays m) winter_disabled))"
    "onDayClick Range False (Some (VDates [mkDate 2024 0 28])) winter_disabled
      \<lparr>day_value = Some (mkDate 2024 1 5)\<rparr>
     = Inr (Some (VDates [mkDate 2024 0 28, mkDate 2024 1 1]))"
    by (simp_all add: onDayClick_def winter_disabled_def getDisabledDays_def
        compareDate_value_def date_ex)
  have b: "valid_date (mkDate 2024 0 1)" "valid_date (mkDate 2024 2 31)"
    "valid_date (mkDate 2024 1 10)"
    "rawDatesValid ?ok"
    "compareDate (mkDate 2024 0 1) (mkDate 2024 2 31) \<noteq> 1"
    "compareDate (elementOr (rawArray ?ok) 0 (mkDate 2024 1 10))
       (elementOr (rawArray ?ok) 1 (mkDate 2024 1 10)) \<noteq> 1"
    "getInitialDate Range (mkDate 2024 1 10) (mkDate 2024 0 1) (mkDate 2024 2 31) ?ok
     = Some (VDates [mkDate 2024 0 10, mkDate 2024 0 20])"
    by (simp_all add: getInitialDate_def limitDateRange_def elementOr_def rawArray_def date_ex)
  have c: "?rev \<noteq> RNull"
    "inBounds (mkDate 2024 0 1) (createPreviousDay (mkDate 2024 2 31))
       (elementOr (rawArray ?rev) 0 (mkDate 2024 1 10))"
    "inBounds (createNextDay (mkDate 2024 0 1)) (mkDate 2024 2 31)
       (elementOr (rawArray ?rev) 1 (mkDate 2024 1 10))"
    by (simp_all add: inBounds_def elementOr_def rawArray_def date_ex)
  have ce: "elementOr (rawArray ?rev) 0 (mkDate 2024 1 10) = mkDate 2024 0 20"
    "elementOr (rawArray ?rev) 1 (mkDate 2024 1 10) = mkDate 2024 0 10"
    by (simp_all add: elementOr_def rawArray_def)
  note t1 = range_start_not_after_end[of "\<lparr>day_value = Some (mkDate 2024 1 5)\<rparr>"
      "mkDate 2024 1 5" "Some (VDates [mkDate 2024 0 28])" winter_disabled False
      "mkDate 2024 0 28" "mkDate 2024 1 1"
      "mkDate 2024 0 1" "mkDate 2024 2 31" "mkDate 2024 1 10" ?ok
      "mkDate 2024 0 10" "mkDate 2024 0 20"]
  note t2 = range_start_not_after_end[of "\<lparr>day_value = Some (mkDate 2024 1 5)\<rparr>"
      "mkDate 2024 1 5" "Some (VDates [mkDate 2024 0 28])" winter_disabled False
      "mkDate 2024 0 28" "mkDate 2024 1 1"
      "mkDate 2024 0 1" "mkDate 2024 2 31" "mkDate 2024 1 10" ?rev
      "mkDate 2024 0 10" "mkDate 2024 0 20"]
  have 1: "compareDate (mkDate 2024 0 28) (mkDate 2024 1 1) \<noteq> 1"
    using t1[THEN conjunct1] a by simp
  have 2: "compareDate (mkDate 2024 0 10) (mkDate 2024 0 20) \<noteq> 1"
    using t1[THEN conjunct2, THEN conjunct1] b by simp
  have 3: "getInitialDate Range (mkDate 2024 1 10) (mkDate 2024 0 1) (mkDate 2024 2 31) ?rev
     = Some (VDates [mkDate 2024 0 20, mkDate 2024 0 10])"
    using t2[THEN conjunct2, THEN conjunct2] c unfolding ce by simp
  from a b c 1 2 3 show ?thesis by simp
qed

end
